theory Spec2Isabelle
  imports Main "HOL-Library.Word" "HOL-Library.Monad_Syntax"
begin

section \<open>Machine model\<close>

text \<open>
  The library is C: \<open>uint64_t\<close>, \<open>uint32_t\<close> and \<open>char\<close> are words of 64, 32 and 8 bits
  whose arithmetic wraps. A \<open>double\<close> is the 64-bit pattern that is stored for it and a
  \<open>float\<close> the 32-bit pattern; the floating-point operations themselves are a parameter
  (record \<open>fpu\<close> below).

  The outer \<open>option\<close> of every operation is undefined behaviour: \<open>None\<close> is returned when
  the C code reads or writes outside a block it allocated or was handed, divides by zero,
  or computes with a stride cell that was never assigned. Allocation itself is assumed to
  succeed, so \<open>ndarray_create\<close> never returns \<open>NULL\<close>. Arrays are values: an operation
  returns the array it wrote to. The file reader, the two random generators and
  \<open>ndarray_free\<close> are not part of the model.
\<close>

type_synonym u8 = "8 word"
type_synonym u32 = "32 word"
type_synonym u64 = "64 word"

text \<open>A byte of a \<open>malloc\<close>ed block: \<open>None\<close> until it is written for the first time.\<close>

type_synonym cell = "u8 option"
type_synonym mem = "cell list"

text \<open>A pointer returned by the library: \<open>NULL\<close> is its only failure signal.\<close>

datatype 'a ptr = NULL | Ptr 'a

text \<open>Reading and writing element \<open>i\<close> of a C array of known length.\<close>

definition rd :: "'a list \<Rightarrow> nat \<Rightarrow> 'a option" where
  "rd xs i = (if i < length xs then Some (xs ! i) else None)"

definition wr :: "'a list \<Rightarrow> nat \<Rightarrow> 'a \<Rightarrow> 'a list option" where
  "wr xs i v = (if i < length xs then Some (xs[i := v]) else None)"

text \<open>
  \<open>for (i = 0; i < n; i++) body\<close>: the body runs for \<open>i = 0, \<dots>, n - 1\<close> in this order
  and the loop stops at the first undefined step.
\<close>

primrec for_loop :: "nat \<Rightarrow> (nat \<Rightarrow> 's \<Rightarrow> 's option) \<Rightarrow> 's \<Rightarrow> 's option" where
  "for_loop 0 body s = Some s"
| "for_loop (Suc n) body s = for_loop n body s \<bind> body n"

subsection \<open>Bytes\<close>

text \<open>The object representation of a word, least significant byte first.\<close>

definition bytes_of :: "nat \<Rightarrow> 'a::len word \<Rightarrow> u8 list" where
  "bytes_of n w = map (\<lambda>k. ucast (drop_bit (8 * k) w)) [0..<n]"

definition word_of_bytes :: "u8 list \<Rightarrow> 'a::len word" where
  "word_of_bytes bs = foldr (\<lambda>b w. or (ucast b) (push_bit 8 w)) bs 0"

text \<open>A value that may be indeterminate (\<open>None\<close>), as the cells it is stored in.\<close>

definition to_cells :: "nat \<Rightarrow> 'a::len word option \<Rightarrow> cell list" where
  "to_cells n v = (case v of None \<Rightarrow> replicate n None | Some w \<Rightarrow> map Some (bytes_of n w))"

definition from_cells :: "cell list \<Rightarrow> 'a::len word option" where
  "from_cells cs = map_option word_of_bytes (those cs)"

text \<open>\<open>n\<close> bytes at byte offset \<open>off\<close> of a block.\<close>

definition load :: "mem \<Rightarrow> nat \<Rightarrow> nat \<Rightarrow> cell list option" where
  "load m off n = (if off + n \<le> length m then Some (take n (drop off m)) else None)"

definition store :: "mem \<Rightarrow> nat \<Rightarrow> cell list \<Rightarrow> mem option" where
  "store m off cs =
     (if off + length cs \<le> length m
      then Some (take off m @ cs @ drop (off + length cs) m) else None)"

text \<open>\<open>*(double* )(p + off)\<close>, \<open>*(float* )(p + off)\<close>, as a read and as an assignment.\<close>

definition load64 :: "mem \<Rightarrow> nat \<Rightarrow> u64 option option" where
  "load64 m off = map_option from_cells (load m off 8)"

definition load32 :: "mem \<Rightarrow> nat \<Rightarrow> u32 option option" where
  "load32 m off = map_option from_cells (load m off 4)"

definition store64 :: "mem \<Rightarrow> nat \<Rightarrow> u64 option \<Rightarrow> mem option" where
  "store64 m off v = store m off (to_cells 8 v)"

definition store32 :: "mem \<Rightarrow> nat \<Rightarrow> u32 option \<Rightarrow> mem option" where
  "store32 m off v = store m off (to_cells 4 v)"

text \<open>\<open>((double* )p)[i]\<close> and \<open>((float* )p)[i]\<close>, \<open>((int* )p)[i]\<close>: element \<open>i\<close> of a typed view.\<close>

definition get_d :: "mem \<Rightarrow> u64 \<Rightarrow> u64 option option" where
  "get_d m i = load64 m (8 * unat i)"

definition set_d :: "mem \<Rightarrow> u64 \<Rightarrow> u64 option \<Rightarrow> mem option" where
  "set_d m i v = store64 m (8 * unat i) v"

definition get_f :: "mem \<Rightarrow> u64 \<Rightarrow> u32 option option" where
  "get_f m i = load32 m (4 * unat i)"

definition set_f :: "mem \<Rightarrow> u64 \<Rightarrow> u32 option \<Rightarrow> mem option" where
  "set_f m i v = store32 m (4 * unat i) v"

subsection \<open>Floating point\<close>

text \<open>
  The arithmetic of the target on the stored patterns: \<open>double\<close> and \<open>float\<close> addition,
  subtraction and multiplication, the two conversions and the \<open>double\<close> comparisons.
\<close>

record fpu =
  d_add :: "u64 \<Rightarrow> u64 \<Rightarrow> u64"
  d_sub :: "u64 \<Rightarrow> u64 \<Rightarrow> u64"
  d_mul :: "u64 \<Rightarrow> u64 \<Rightarrow> u64"
  f_add :: "u32 \<Rightarrow> u32 \<Rightarrow> u32"
  f_sub :: "u32 \<Rightarrow> u32 \<Rightarrow> u32"
  f_mul :: "u32 \<Rightarrow> u32 \<Rightarrow> u32"
  f2d :: "u32 \<Rightarrow> u64"
  d2f :: "u64 \<Rightarrow> u32"
  d_gt :: "u64 \<Rightarrow> u64 \<Rightarrow> bool"
  d_lt :: "u64 \<Rightarrow> u64 \<Rightarrow> bool"
  d_eq :: "u64 \<Rightarrow> u64 \<Rightarrow> bool"

text \<open>An operation on operands that may be indeterminate.\<close>

definition lift2 :: "('a \<Rightarrow> 'b \<Rightarrow> 'c) \<Rightarrow> 'a option \<Rightarrow> 'b option \<Rightarrow> 'c option" where
  "lift2 f x y = (case x of None \<Rightarrow> None | Some a \<Rightarrow> map_option (f a) y)"

section \<open>The array (ndarray.h)\<close>

text \<open>
  \<open>ndarray_t\<close>: the three blocks the struct points to, and its two scalar fields. The
  cells of \<open>strides\<close> are \<open>None\<close> until \<open>ndarray_create\<close> assigns them.
\<close>

record ndarray =
  data :: mem
  dimensions :: "u64 list"
  strides :: "u64 option list"
  nd :: u32
  dtype :: u8

text \<open>The dtype tags \<open>'d'\<close>, \<open>'f'\<close> and \<open>'i'\<close>.\<close>

abbreviation tag_d :: u8 where "tag_d \<equiv> 100"
abbreviation tag_f :: u8 where "tag_f \<equiv> 102"
abbreviation tag_i :: u8 where "tag_i \<equiv> 105"

text \<open>
  \<open>calculate_type_size\<close>. In the last branch \<open>(size_t)dtype\<close> is below 8 only for the
  tags 0 to 7, whether \<open>char\<close> is signed or not.
\<close>

definition calculate_type_size :: "u8 \<Rightarrow> u64" where
  "calculate_type_size dt =
     (if dt = tag_d then 8
      else if dt = tag_f then 4
      else if dt = tag_i then 8
      else (if dt < 8 then ucast dt else 1))"

definition calculate_size :: "u64 list \<Rightarrow> u32 \<Rightarrow> u64 option" where
  "calculate_size dims n =
     for_loop (unat n) (\<lambda>i size. do { d \<leftarrow> rd dims i; Some (size * d) }) 1"

text \<open>
  The stride loop of \<open>ndarray_create\<close>, \<open>for (int i = nd - 2; i >= 0; i--)\<close>: the argument
  is \<open>i + 1\<close>, so that \<open>0\<close> is the exit. The index \<open>i + 1\<close> of the body is an \<open>int\<close>
  addition: at \<open>i = INT_MAX = 2147483647\<close> it overflows, which is undefined.
\<close>

primrec stride_loop :: "nat \<Rightarrow> u64 list \<Rightarrow> u64 option list \<Rightarrow> u64 option list option" where
  "stride_loop 0 dims st = Some st"
| "stride_loop (Suc i) dims st =
     (if 2147483647 \<le> i then None
      else do {
        c \<leftarrow> rd st (Suc i);
        s \<leftarrow> c;
        d \<leftarrow> rd dims (Suc i);
        st' \<leftarrow> wr st i (Some (s * d));
        stride_loop i dims st'
      })"

text \<open>
  \<open>ndarray_create\<close>. \<open>nd - 1\<close> and \<open>nd - 2\<close> are computed in \<open>uint32_t\<close>; the loop index is
  an \<open>int\<close>, and the conversion of \<open>nd - 2\<close> to it is the two's complement one (\<open>sint\<close>),
  which is what makes the loop empty for \<open>nd = 1\<close>. For \<open>nd = 2^31 + 1\<close> the loop starts at
  \<open>INT_MAX\<close> and its first index \<open>i + 1\<close> is undefined. The data block is \<open>malloc\<close>ed and
  not written.
\<close>

definition ndarray_create :: "u64 list \<Rightarrow> u32 \<Rightarrow> u8 \<Rightarrow> ndarray ptr option" where
  "ndarray_create dims n dt = do {
     dims' \<leftarrow> (if unat n \<le> length dims then Some (take (unat n) dims) else None);
     st0 \<leftarrow> wr (replicate (unat n) None) (unat (n - 1)) (Some (calculate_type_size dt));
     st \<leftarrow> stride_loop (nat (sint (n - 2) + 1)) dims' st0;
     size \<leftarrow> calculate_size dims n;
     Some (Ptr \<lparr> data = replicate (unat (size * calculate_type_size dt)) None,
                 dimensions = dims', strides = st, nd = n, dtype = dt \<rparr>)
   }"

section \<open>Indexing\<close>

text \<open>
  The offset loop shared by \<open>ndarray_get_point\<close> and the \<open>ndarray_set_point\<close> family:
  \<open>offset += strides[i] * idx[i]\<close> for \<open>i < nd\<close>, in \<open>uint64_t\<close>.
\<close>

definition point_offset :: "ndarray \<Rightarrow> u64 list \<Rightarrow> u64 option" where
  "point_offset a idx =
     for_loop (unat (nd a))
       (\<lambda>i offset. do { c \<leftarrow> rd (strides a) i; s \<leftarrow> c; x \<leftarrow> rd idx i; Some (offset + s * x) }) 0"

text \<open>\<open>ndarray_get_point\<close> returns \<open>data + offset\<close>: the pointer is its byte offset in \<open>data\<close>.\<close>

definition ndarray_get_point :: "ndarray \<Rightarrow> u64 list \<Rightarrow> u64 option" where
  "ndarray_get_point a idx = point_offset a idx"

text \<open>
  The setters return the C return value, which is always 0, and the array with its data
  block updated.
\<close>

definition ndarray_set_point_d :: "ndarray \<Rightarrow> u64 list \<Rightarrow> u64 \<Rightarrow> (int \<times> ndarray) option" where
  "ndarray_set_point_d a idx data_point = do {
     offset \<leftarrow> point_offset a idx;
     m \<leftarrow> store64 (data a) (unat offset) (Some data_point);
     Some (0, a\<lparr>data := m\<rparr>)
   }"

definition ndarray_set_point_f :: "ndarray \<Rightarrow> u64 list \<Rightarrow> u32 \<Rightarrow> (int \<times> ndarray) option" where
  "ndarray_set_point_f a idx data_point = do {
     offset \<leftarrow> point_offset a idx;
     m \<leftarrow> store32 (data a) (unat offset) (Some data_point);
     Some (0, a\<lparr>data := m\<rparr>)
   }"

definition ndarray_set_point_u64 :: "ndarray \<Rightarrow> u64 list \<Rightarrow> u64 \<Rightarrow> (int \<times> ndarray) option" where
  "ndarray_set_point_u64 a idx data_point = do {
     offset \<leftarrow> point_offset a idx;
     m \<leftarrow> store64 (data a) (unat offset) (Some data_point);
     Some (0, a\<lparr>data := m\<rparr>)
   }"

definition ndarray_set_point_u32 :: "ndarray \<Rightarrow> u64 list \<Rightarrow> u32 \<Rightarrow> (int \<times> ndarray) option" where
  "ndarray_set_point_u32 a idx data_point = do {
     offset \<leftarrow> point_offset a idx;
     m \<leftarrow> store32 (data a) (unat offset) (Some data_point);
     Some (0, a\<lparr>data := m\<rparr>)
   }"

text \<open>
  \<open>ndarray_set_point\<close>: \<open>memcpy\<close> of \<open>calculate_type_size(dtype)\<close> bytes from the caller's
  block \<open>data_point\<close>.
\<close>

definition ndarray_set_point :: "ndarray \<Rightarrow> u64 list \<Rightarrow> cell list \<Rightarrow> (int \<times> ndarray) option" where
  "ndarray_set_point a idx data_point = do {
     offset \<leftarrow> point_offset a idx;
     src \<leftarrow> load data_point 0 (unat (calculate_type_size (dtype a)));
     m \<leftarrow> store (data a) (unat offset) src;
     Some (0, a\<lparr>data := m\<rparr>)
   }"

definition ndarray_ndim :: "ndarray \<Rightarrow> u32" where
  "ndarray_ndim a = nd a"

definition ndarray_shape :: "ndarray \<Rightarrow> u64 list" where
  "ndarray_shape a = dimensions a"

definition ndarray_dtype :: "ndarray \<Rightarrow> u8" where
  "ndarray_dtype a = dtype a"

definition ndarray_size :: "ndarray \<Rightarrow> u64 option" where
  "ndarray_size a =
     for_loop (unat (nd a)) (\<lambda>i size. do { d \<leftarrow> rd (dimensions a) i; Some (size * d) }) 1"

section \<open>Transpose\<close>

text \<open>
  In the operations below an output array passed by the caller is taken to be a block of
  its own, distinct from the inputs. The bounds of the loops are the dimension cells the
  C conditions read; they are read once, since no operation writes them.
\<close>

definition ndarray_transpose :: "ndarray \<Rightarrow> ndarray ptr option" where
  "ndarray_transpose a =
     (if nd a \<noteq> 2 then Some NULL
      else do {
        d1 \<leftarrow> rd (dimensions a) 1;
        d0 \<leftarrow> rd (dimensions a) 0;
        t \<leftarrow> ndarray_create [d1, d0] 2 (dtype a);
        case t of NULL \<Rightarrow> Some NULL
        | Ptr transposed \<Rightarrow> do {
            m \<leftarrow> for_loop (unat d0) (\<lambda>i. for_loop (unat d1) (\<lambda>j m.
                   if dtype a = tag_d then do {
                     v \<leftarrow> get_d (data a) (of_nat i * d1 + of_nat j);
                     set_d m (of_nat j * d0 + of_nat i) v }
                   else if dtype a = tag_f then do {
                     v \<leftarrow> get_f (data a) (of_nat i * d1 + of_nat j);
                     set_f m (of_nat j * d0 + of_nat i) v }
                   else Some m)) (data transposed);
            Some (Ptr (transposed\<lparr>data := m\<rparr>))
          }
      })"

section \<open>Elementwise operations\<close>

text \<open>
  The shape check of \<open>ndarray_add\<close>, \<open>ndarray_subtract\<close> and \<open>ndarray_compare\<close>: the loop
  returns at the first axis that differs and reads nothing after it.
\<close>

definition shape_differs :: "ndarray \<Rightarrow> ndarray \<Rightarrow> bool option" where
  "shape_differs a b =
     for_loop (unat (nd a))
       (\<lambda>i found. if found then Some True
          else do { x \<leftarrow> rd (dimensions a) i; y \<leftarrow> rd (dimensions b) i; Some (x \<noteq> y) })
       False"

text \<open>\<open>if (!result) result = ndarray_create(a->dimensions, a->nd, a->dtype);\<close>\<close>

definition result_or_create :: "ndarray ptr \<Rightarrow> ndarray \<Rightarrow> ndarray ptr option" where
  "result_or_create result a =
     (case result of NULL \<Rightarrow> ndarray_create (dimensions a) (nd a) (dtype a)
      | Ptr r \<Rightarrow> Some (Ptr r))"

definition ndarray_add :: "fpu \<Rightarrow> ndarray ptr \<Rightarrow> ndarray \<Rightarrow> ndarray \<Rightarrow> ndarray ptr option" where
  "ndarray_add fp result a b =
     (if nd a \<noteq> nd b \<or> dtype a \<noteq> dtype b then Some NULL
      else do {
        differs \<leftarrow> shape_differs a b;
        if differs then Some NULL
        else do {
          r \<leftarrow> result_or_create result a;
          case r of NULL \<Rightarrow> Some NULL
          | Ptr res \<Rightarrow> do {
              d0 \<leftarrow> rd (dimensions a) 0;
              d1 \<leftarrow> rd (dimensions a) 1;
              m \<leftarrow> for_loop (unat (d0 * d1)) (\<lambda>i m.
                     if dtype a = tag_d then do {
                       x \<leftarrow> get_d (data a) (of_nat i);
                       y \<leftarrow> get_d (data b) (of_nat i);
                       set_d m (of_nat i) (lift2 (d_add fp) x y) }
                     else if dtype a = tag_f then do {
                       x \<leftarrow> get_f (data a) (of_nat i);
                       y \<leftarrow> get_f (data b) (of_nat i);
                       set_f m (of_nat i) (lift2 (f_add fp) x y) }
                     else Some m) (data res);
              Some (Ptr (res\<lparr>data := m\<rparr>))
            }
        }
      })"

definition ndarray_subtract :: "fpu \<Rightarrow> ndarray ptr \<Rightarrow> ndarray \<Rightarrow> ndarray \<Rightarrow> ndarray ptr option" where
  "ndarray_subtract fp result a b =
     (if nd a \<noteq> nd b \<or> dtype a \<noteq> dtype b then Some NULL
      else do {
        differs \<leftarrow> shape_differs a b;
        if differs then Some NULL
        else do {
          r \<leftarrow> result_or_create result a;
          case r of NULL \<Rightarrow> Some NULL
          | Ptr res \<Rightarrow> do {
              d0 \<leftarrow> rd (dimensions a) 0;
              d1 \<leftarrow> rd (dimensions a) 1;
              m \<leftarrow> for_loop (unat (d0 * d1)) (\<lambda>i m.
                     if dtype a = tag_d then do {
                       x \<leftarrow> get_d (data a) (of_nat i);
                       y \<leftarrow> get_d (data b) (of_nat i);
                       set_d m (of_nat i) (lift2 (d_sub fp) x y) }
                     else if dtype a = tag_f then do {
                       x \<leftarrow> get_f (data a) (of_nat i);
                       y \<leftarrow> get_f (data b) (of_nat i);
                       set_f m (of_nat i) (lift2 (f_sub fp) x y) }
                     else Some m) (data res);
              Some (Ptr (res\<lparr>data := m\<rparr>))
            }
        }
      })"

section \<open>Matrix product\<close>

text \<open>
  \<open>sum\<close> is a \<open>double\<close> that starts at \<open>0.0\<close>, the all-zero pattern. For \<open>'f'\<close> the product
  is a \<open>float\<close> product, widened for the addition, and the sum is narrowed when stored.
\<close>

definition ndarray_dot :: "fpu \<Rightarrow> ndarray ptr \<Rightarrow> ndarray \<Rightarrow> ndarray \<Rightarrow> ndarray ptr option" where
  "ndarray_dot fp result a b =
     (if nd a \<noteq> 2 \<or> nd b \<noteq> 2 \<or> dtype a \<noteq> dtype b then Some NULL
      else do {
        a1 \<leftarrow> rd (dimensions a) 1;
        b0 \<leftarrow> rd (dimensions b) 0;
        if a1 \<noteq> b0 then Some NULL
        else do {
          r \<leftarrow> result_or_create result a;
          case r of NULL \<Rightarrow> Some NULL
          | Ptr res \<Rightarrow> do {
              a0 \<leftarrow> rd (dimensions a) 0;
              m \<leftarrow> for_loop (unat a0) (\<lambda>i m. do {
                b1 \<leftarrow> rd (dimensions b) 1;
                for_loop (unat b1) (\<lambda>j m. do {
                  sum \<leftarrow> for_loop (unat a1) (\<lambda>k sum.
                     if dtype a = tag_d then do {
                       x \<leftarrow> get_d (data a) (of_nat i * a1 + of_nat k);
                       y \<leftarrow> get_d (data b) (of_nat k * b1 + of_nat j);
                       Some (lift2 (d_add fp) sum (lift2 (d_mul fp) x y)) }
                     else if dtype a = tag_f then do {
                       x \<leftarrow> get_f (data a) (of_nat i * a1 + of_nat k);
                       y \<leftarrow> get_f (data b) (of_nat k * b1 + of_nat j);
                       Some (lift2 (d_add fp) sum (map_option (f2d fp) (lift2 (f_mul fp) x y))) }
                     else Some sum) (Some 0);
                  if dtype a = tag_d then set_d m (of_nat i * b1 + of_nat j) sum
                  else if dtype a = tag_f then set_f m (of_nat i * b1 + of_nat j) (map_option (d2f fp) sum)
                  else Some m }) m }) (data res);
              Some (Ptr (res\<lparr>data := m\<rparr>))
            }
        }
      })"

section \<open>Broadcast add\<close>

text \<open>
  An operand is read as \<open>double\<close> when its dtype is \<open>'d'\<close> and as \<open>float\<close>, widened, for
  every other tag; outside its extent it is \<open>0.0\<close>.
\<close>

definition operand_at :: "fpu \<Rightarrow> ndarray \<Rightarrow> u64 \<Rightarrow> u64 option option" where
  "operand_at fp a i =
     (if dtype a = tag_d then get_d (data a) i
      else map_option (map_option (f2d fp)) (get_f (data a) i))"

definition ndarray_broadcast_add :: "fpu \<Rightarrow> ndarray ptr \<Rightarrow> ndarray \<Rightarrow> ndarray \<Rightarrow> ndarray ptr option" where
  "ndarray_broadcast_add fp result a b =
     (if nd a \<noteq> 2 \<or> nd b \<noteq> 2 \<or> dtype a \<noteq> dtype b then Some NULL
      else do {
        a0 \<leftarrow> rd (dimensions a) 0;
        b0 \<leftarrow> rd (dimensions b) 0;
        a1 \<leftarrow> rd (dimensions a) 1;
        b1 \<leftarrow> rd (dimensions b) 1;
        let rows = (if a0 > b0 then a0 else b0);
        let cols = (if a1 > b1 then a1 else b1);
        r \<leftarrow> result_or_create result a;
        case r of NULL \<Rightarrow> Some NULL
        | Ptr res \<Rightarrow> do {
            m \<leftarrow> for_loop (unat rows) (\<lambda>i. for_loop (unat cols) (\<lambda>j m. do {
                   val_a \<leftarrow> (if (of_nat i :: u64) < a0 \<and> (of_nat j :: u64) < a1
                              then operand_at fp a (of_nat i * a1 + of_nat j) else Some (Some 0));
                   val_b \<leftarrow> (if (of_nat i :: u64) < b0 \<and> (of_nat j :: u64) < b1
                              then operand_at fp b (of_nat i * b1 + of_nat j) else Some (Some 0));
                   if dtype a = tag_d then set_d m (of_nat i * cols + of_nat j) (lift2 (d_add fp) val_a val_b)
                   else if dtype a = tag_f
                     then set_f m (of_nat i * cols + of_nat j) (map_option (d2f fp) (lift2 (d_add fp) val_a val_b))
                   else Some m })) (data res);
            Some (Ptr (res\<lparr>data := m\<rparr>))
          }
      })"

section \<open>Comparison\<close>

text \<open>
  The truth value is stored as an \<open>int\<close> (four bytes) at \<open>((int* )result->data)[i]\<close>. The
  operator is only looked at inside the loop: the state \<open>None\<close> is the \<open>default\<close> branch,
  which frees \<open>result\<close> and returns \<open>NULL\<close>.
\<close>

definition truth :: "bool \<Rightarrow> u32" where
  "truth p = (if p then 1 else 0)"

abbreviation op_gt :: u8 where "op_gt \<equiv> 62"
abbreviation op_lt :: u8 where "op_lt \<equiv> 60"
abbreviation op_eq :: u8 where "op_eq \<equiv> 61"

definition ndarray_compare :: "fpu \<Rightarrow> ndarray ptr \<Rightarrow> ndarray \<Rightarrow> ndarray \<Rightarrow> u8 \<Rightarrow> ndarray ptr option" where
  "ndarray_compare fp result a b op =
     (if nd a \<noteq> nd b \<or> dtype a \<noteq> dtype b then Some NULL
      else do {
        differs \<leftarrow> shape_differs a b;
        if differs then Some NULL
        else do {
          r \<leftarrow> result_or_create result a;
          case r of NULL \<Rightarrow> Some NULL
          | Ptr res \<Rightarrow> do {
              d0 \<leftarrow> rd (dimensions a) 0;
              d1 \<leftarrow> rd (dimensions a) 1;
              st \<leftarrow> for_loop (unat (d0 * d1)) (\<lambda>i st.
                     case st of None \<Rightarrow> Some None
                     | Some m \<Rightarrow> do {
                         val_a \<leftarrow> operand_at fp a (of_nat i);
                         val_b \<leftarrow> operand_at fp b (of_nat i);
                         if op = op_gt
                           then map_option Some (set_f m (of_nat i) (lift2 (\<lambda>x y. truth (d_gt fp x y)) val_a val_b))
                         else if op = op_lt
                           then map_option Some (set_f m (of_nat i) (lift2 (\<lambda>x y. truth (d_lt fp x y)) val_a val_b))
                         else if op = op_eq
                           then map_option Some (set_f m (of_nat i) (lift2 (\<lambda>x y. truth (d_eq fp x y)) val_a val_b))
                         else Some None }) (Some (data res));
              case st of None \<Rightarrow> Some NULL
              | Some m \<Rightarrow> Some (Ptr (res\<lparr>data := m\<rparr>))
            }
        }
      })"

section \<open>Subsampling\<close>

text \<open>
  \<open>rnd i\<close> is the value of the \<open>i\<close>-th call of \<open>rand()\<close> after \<open>srand(time(NULL))\<close>, as
  converted to \<open>uint64_t\<close>. The blocks \<open>new_dims\<close> and \<open>indices\<close> are \<open>malloc\<close>ed: their
  cells are \<open>None\<close> until assigned, and \<open>indices\<close> has as many cells as fit in
  \<open>dimensions[0] * sizeof(uint64_t)\<close> bytes, computed in \<open>uint64_t\<close>.
\<close>

definition ndarray_subsample :: "(nat \<Rightarrow> u64) \<Rightarrow> ndarray \<Rightarrow> u64 \<Rightarrow> ndarray ptr option" where
  "ndarray_subsample rnd a n_samples = do {
     d0 \<leftarrow> rd (dimensions a) 0;
     if n_samples > d0 then Some NULL
     else do {
       nd0 \<leftarrow> wr (replicate (unat (nd a)) None) 0 (Some n_samples);
       nd1 \<leftarrow> for_loop (unat (nd a) - 1)
                (\<lambda>k ds. do { d \<leftarrow> rd (dimensions a) (Suc k); wr ds (Suc k) (Some d) }) nd0;
       new_dims \<leftarrow> those nd1;
       s \<leftarrow> ndarray_create new_dims (nd a) (dtype a);
       case s of NULL \<Rightarrow> Some NULL
       | Ptr subsampled \<Rightarrow> do {
           ind0 \<leftarrow> for_loop (unat d0) (\<lambda>i ind. wr ind i (Some (of_nat i)))
                     (replicate (unat (d0 * 8) div 8) None);
           indices \<leftarrow> for_loop (unat d0) (\<lambda>i ind. do {
                     let j = unat (rnd i mod d0);
                     temp \<leftarrow> rd ind i;
                     x \<leftarrow> rd ind j;
                     ind' \<leftarrow> wr ind i x;
                     wr ind' j temp }) ind0;
           m \<leftarrow> for_loop (unat n_samples) (\<lambda>i m. do {
                  d1 \<leftarrow> rd (dimensions a) 1;
                  for_loop (unat d1) (\<lambda>j m.
                    if dtype a = tag_d then do {
                      c \<leftarrow> rd indices i;
                      r \<leftarrow> c;
                      v \<leftarrow> get_d (data a) (r * d1 + of_nat j);
                      set_d m (of_nat i * d1 + of_nat j) v }
                    else if dtype a = tag_f then do {
                      c \<leftarrow> rd indices i;
                      r \<leftarrow> c;
                      v \<leftarrow> get_f (data a) (r * d1 + of_nat j);
                      set_f m (of_nat i * d1 + of_nat j) v }
                    else Some m) m }) (data subsampled);
           Some (Ptr (subsampled\<lparr>data := m\<rparr>))
         }
     }
   }"

section \<open>Concatenation\<close>

text \<open>
  One round of the copy loop of \<open>ndarray_concat\<close>, for the output element \<open>linear_idx\<close>.
  The state is the output data and the block \<open>indices\<close>. The decomposition divides by
  the strides of the result, which are byte strides, and the source index is built from
  the byte strides of the source; a zero stride is a division by zero.
\<close>

definition concat_step ::
  "ndarray \<Rightarrow> ndarray \<Rightarrow> u32 \<Rightarrow> ndarray \<Rightarrow> nat \<Rightarrow> mem \<times> u64 option list \<Rightarrow> (mem \<times> u64 option list) option" where
  "concat_step a b axis result linear_idx st = (case st of (m, indices0) \<Rightarrow> do {
     (remainder, indices) \<leftarrow> for_loop (unat (nd result)) (\<lambda>i (remainder, ind). do {
         c \<leftarrow> rd (strides result) i;
         s \<leftarrow> c;
         if s = 0 then None
         else do {
           ind' \<leftarrow> wr ind i (Some (remainder div s));
           Some (remainder mod s, ind') } }) (of_nat linear_idx, indices0);
     c \<leftarrow> rd indices (unat axis);
     axis_idx \<leftarrow> c;
     da \<leftarrow> rd (dimensions a) (unat axis);
     let src = (if axis_idx < da then a else b);
     let src_axis = (if axis_idx < da then axis_idx else axis_idx - da);
     src_idx \<leftarrow> for_loop (unat (nd src)) (\<lambda>i src_idx. do {
         c \<leftarrow> rd (strides src) i;
         s \<leftarrow> c;
         if i = unat axis then Some (src_idx + src_axis * s)
         else do { c \<leftarrow> rd indices i; x \<leftarrow> c; Some (src_idx + x * s) } }) 0;
     m' \<leftarrow> (if dtype a = tag_d then do {
               v \<leftarrow> get_d (data src) src_idx;
               set_d m (of_nat linear_idx) v }
             else do {
               v \<leftarrow> get_f (data src) src_idx;
               set_f m (of_nat linear_idx) v });
     Some (m', indices)
   })"

text \<open>
  \<open>ndarray_concat\<close>. \<open>indices\<close> is \<open>malloc(result->nd * type_size)\<close>: it has as many
  \<open>uint64_t\<close> cells as fit in that many bytes.
\<close>

definition ndarray_concat :: "ndarray ptr \<Rightarrow> ndarray ptr \<Rightarrow> u32 \<Rightarrow> ndarray ptr option" where
  "ndarray_concat pa pb axis =
     (case pa of NULL \<Rightarrow> Some NULL
      | Ptr a \<Rightarrow> (case pb of NULL \<Rightarrow> Some NULL
      | Ptr b \<Rightarrow>
         if nd a \<noteq> nd b then Some NULL
         else if axis \<ge> nd a then Some NULL
         else if dtype a \<noteq> dtype b then Some NULL
         else do {
           differs \<leftarrow> for_loop (unat (nd a)) (\<lambda>i found.
               if found then Some True
               else if i \<noteq> unat axis
                 then do { x \<leftarrow> rd (dimensions a) i; y \<leftarrow> rd (dimensions b) i; Some (x \<noteq> y) }
               else Some False) False;
           if differs then Some NULL
           else do {
             nds \<leftarrow> for_loop (unat (nd a)) (\<lambda>i ds. do {
                 x \<leftarrow> rd (dimensions a) i;
                 if i = unat axis
                   then do { y \<leftarrow> rd (dimensions b) i; wr ds i (Some (x + y)) }
                 else wr ds i (Some x) }) (replicate (unat (nd a)) None);
             new_dims \<leftarrow> those nds;
             r \<leftarrow> ndarray_create new_dims (nd a) (dtype a);
             case r of NULL \<Rightarrow> Some NULL
             | Ptr result \<Rightarrow> do {
                 total_elements \<leftarrow> ndarray_size result;
                 let type_size = calculate_type_size (dtype result);
                 let indices0 = replicate ((unat (nd result) * unat type_size) div 8) None;
                 (m, indices) \<leftarrow> for_loop (unat total_elements) (concat_step a b axis result)
                                   (data result, indices0);
                 Some (Ptr (result\<lparr>data := m\<rparr>))
               }
           }
         }))"

section \<open>The invariants of an array\<close>

text \<open>
  The strides of the C-order layout in closed form: the stride of axis \<open>i\<close> is the
  element size times the extents of the axes after \<open>i\<close>, in \<open>uint64_t\<close>.
\<close>

definition row_major :: "u64 list \<Rightarrow> u64 \<Rightarrow> u64 list" where
  "row_major dims esz = map (\<lambda>i. esz * prod_list (drop (Suc i) dims)) [0..<length dims]"

text \<open>
  The stride invariant as the specification words it: \<open>strides[rank-1]\<close> is the element
  size, and \<open>strides[i] = strides[i+1] * shape[i+1]\<close> for \<open>i < rank - 1\<close>, on cells that
  have been assigned.
\<close>

definition stride_invariant :: "ndarray \<Rightarrow> bool" where
  "stride_invariant a \<longleftrightarrow>
     (let n = unat (nd a) in
        rd (strides a) (n - 1) = Some (Some (calculate_type_size (dtype a))) \<and>
        (\<forall>i. Suc i < n \<longrightarrow>
           (\<exists>s d. rd (strides a) (Suc i) = Some (Some s) \<and> rd (dimensions a) (Suc i) = Some d \<and>
                  rd (strides a) i = Some (Some (s * d)))))"

text \<open>
  An array as the data model of the specification has it: a rank of at least 1, \<open>rank\<close>
  extents and strides, the stride invariant, and a data block of
  \<open>product(shape) * elementSize\<close> bytes, a size that a \<open>size_t\<close> holds.
\<close>

definition wf_array :: "ndarray \<Rightarrow> bool" where
  "wf_array a \<longleftrightarrow>
     1 \<le> unat (nd a) \<and>
     length (dimensions a) = unat (nd a) \<and>
     length (strides a) = unat (nd a) \<and>
     stride_invariant a \<and>
     length (data a) = unat (calculate_type_size (dtype a)) * prod_list (map unat (dimensions a)) \<and>
     length (data a) < 2 ^ 64"

text \<open>An index tuple of length \<open>rank\<close> with \<open>idx[i] < shape[i]\<close> on every axis.\<close>

definition in_bounds :: "ndarray \<Rightarrow> u64 list \<Rightarrow> bool" where
  "in_bounds a idx \<longleftrightarrow>
     length idx = unat (nd a) \<and> (\<forall>i < unat (nd a). idx ! i < dimensions a ! i)"

text \<open>A dtype tag that is none of the three named ones.\<close>

definition other_tag :: "u8 \<Rightarrow> bool" where
  "other_tag dt \<longleftrightarrow> dt \<noteq> tag_d \<and> dt \<noteq> tag_f \<and> dt \<noteq> tag_i"

text \<open>
  Every cell of \<open>r\<close>, as a \<open>double\<close> or as a \<open>float\<close>, is \<open>f\<close> of the cells of \<open>a\<close> and \<open>b\<close>
  at the same position, for the \<open>product(shape)\<close> cells of \<open>a\<close>.
\<close>

definition elementwise_d :: "(u64 \<Rightarrow> u64 \<Rightarrow> u64) \<Rightarrow> ndarray \<Rightarrow> ndarray \<Rightarrow> ndarray \<Rightarrow> bool" where
  "elementwise_d f a b r \<longleftrightarrow>
     (\<forall>i < prod_list (map unat (dimensions a)).
        \<exists>x y. get_d (data a) (of_nat i) = Some x \<and> get_d (data b) (of_nat i) = Some y
             \<and> get_d (data r) (of_nat i) = Some (lift2 f x y))"

definition elementwise_f :: "(u32 \<Rightarrow> u32 \<Rightarrow> u32) \<Rightarrow> ndarray \<Rightarrow> ndarray \<Rightarrow> ndarray \<Rightarrow> bool" where
  "elementwise_f f a b r \<longleftrightarrow>
     (\<forall>i < prod_list (map unat (dimensions a)).
        \<exists>x y. get_f (data a) (of_nat i) = Some x \<and> get_f (data b) (of_nat i) = Some y
             \<and> get_f (data r) (of_nat i) = Some (lift2 f x y))"

text \<open>The array with the shape, strides, dtype and size of \<open>a\<close> and no cell written.\<close>

definition unwritten :: "ndarray \<Rightarrow> ndarray" where
  "unwritten a = a\<lparr>data := replicate (length (data a)) None\<rparr>"

text \<open>Two arrays with the same shape, strides, rank and dtype.\<close>

definition same_layout :: "ndarray \<Rightarrow> ndarray \<Rightarrow> bool" where
  "same_layout r a \<longleftrightarrow>
     dimensions r = dimensions a \<and> strides r = strides a \<and> nd r = nd a \<and> dtype r = dtype a"

text \<open>
  The block \<open>indices\<close> of \<open>ndarray_subsample\<close> holds the row numbers \<open>p\<close>, and \<open>p\<close> is a
  permutation of the rows \<open>0, \<dots>, r - 1\<close>.
\<close>

definition row_numbers :: "nat \<Rightarrow> u64 option list \<Rightarrow> nat list \<Rightarrow> bool" where
  "row_numbers r ind p \<longleftrightarrow> ind = map (\<lambda>k. Some (of_nat k)) p \<and> distinct p \<and> set p = {..<r}"

text \<open>
  The operators that the \<open>switch\<close> of \<open>ndarray_compare\<close> has a case for, and the comparison
  that each case makes.
\<close>

definition valid_op :: "u8 \<Rightarrow> bool" where
  "valid_op op \<longleftrightarrow> op = op_gt \<or> op = op_lt \<or> op = op_eq"

definition comparison :: "fpu \<Rightarrow> u8 \<Rightarrow> u64 \<Rightarrow> u64 \<Rightarrow> bool" where
  "comparison fp op = (if op = op_gt then d_gt fp else if op = op_lt then d_lt fp else d_eq fp)"

text \<open>
  Every \<open>int\<close> cell of \<open>r\<close> is the truth value of the comparison of the cells of \<open>a\<close> and \<open>b\<close>
  at the same position, widened to \<open>double\<close>, for the \<open>product(shape)\<close> cells of \<open>a\<close>.
\<close>

definition compared :: "fpu \<Rightarrow> u8 \<Rightarrow> ndarray \<Rightarrow> ndarray \<Rightarrow> ndarray \<Rightarrow> bool" where
  "compared fp op a b r \<longleftrightarrow>
     (\<forall>i < prod_list (map unat (dimensions a)).
        \<exists>x y. operand_at fp a (of_nat i) = Some x \<and> operand_at fp b (of_nat i) = Some y
             \<and> get_f (data r) (of_nat i) = Some (lift2 (\<lambda>x y. truth (comparison fp op x y)) x y))"

text \<open>
  Entry \<open>(i,j)\<close> of a matrix, read as a \<open>double\<close> or as a \<open>float\<close>; \<open>None\<close> when it is
  indeterminate or lies outside the data block.
\<close>

definition cell_d :: "ndarray \<Rightarrow> nat \<Rightarrow> nat \<Rightarrow> u64 option" where
  "cell_d a i j = get_d (data a) (of_nat i * (dimensions a ! 1) + of_nat j) \<bind> (\<lambda>x. x)"

definition cell_f :: "ndarray \<Rightarrow> nat \<Rightarrow> nat \<Rightarrow> u32 option" where
  "cell_f a i j = get_f (data a) (of_nat i * (dimensions a ! 1) + of_nat j) \<bind> (\<lambda>x. x)"

text \<open>
  The sum over \<open>k\<close> of \<open>A[i,k] * B[k,j]\<close>, accumulated in \<open>double\<close> from \<open>0.0\<close> in the order of
  \<open>k\<close>; for \<open>float\<close>s each product is a \<open>float\<close> product, widened. For \<open>A\<close> of shape \<open>[m,k]\<close>
  and \<open>B\<close> of shape \<open>[k,n]\<close>, cell \<open>i * n + j\<close> of the result holds that sum, narrowed for
  \<open>float\<close>s.
\<close>

definition sum_of_products :: "fpu \<Rightarrow> ndarray \<Rightarrow> ndarray \<Rightarrow> nat \<Rightarrow> nat \<Rightarrow> u64 option" where
  "sum_of_products fp a b i j =
     foldl (\<lambda>sum k. lift2 (d_add fp) sum
              (if dtype a = tag_d then lift2 (d_mul fp) (cell_d a i k) (cell_d b k j)
               else map_option (f2d fp) (lift2 (f_mul fp) (cell_f a i k) (cell_f b k j))))
       (Some 0) [0..<unat (dimensions a ! 1)]"

definition matrix_product :: "fpu \<Rightarrow> ndarray \<Rightarrow> ndarray \<Rightarrow> ndarray \<Rightarrow> bool" where
  "matrix_product fp a b r \<longleftrightarrow>
     (\<forall>i < unat (dimensions a ! 0). \<forall>j < unat (dimensions b ! 1).
        (if dtype a = tag_d
         then get_d (data r) (of_nat i * (dimensions b ! 1) + of_nat j) = Some (sum_of_products fp a b i j)
         else get_f (data r) (of_nat i * (dimensions b ! 1) + of_nat j)
                = Some (map_option (d2f fp) (sum_of_products fp a b i j))))"

text \<open>
  An entry widened to \<open>double\<close>, the entry of an operand padded with \<open>0.0\<close> outside its
  extents, and the result of \<open>broadcastAdd\<close>: with \<open>rows\<close> and \<open>cols\<close> the larger extents of the
  two operands, cell \<open>i * cols + j\<close> is the sum of the two padded operands.
\<close>

definition entry :: "fpu \<Rightarrow> ndarray \<Rightarrow> nat \<Rightarrow> nat \<Rightarrow> u64 option" where
  "entry fp a i j = (if dtype a = tag_d then cell_d a i j else map_option (f2d fp) (cell_f a i j))"

definition padded :: "fpu \<Rightarrow> ndarray \<Rightarrow> nat \<Rightarrow> nat \<Rightarrow> u64 option" where
  "padded fp a i j =
     (if i < unat (dimensions a ! 0) \<and> j < unat (dimensions a ! 1) then entry fp a i j else Some 0)"

definition padded_sum :: "fpu \<Rightarrow> ndarray \<Rightarrow> ndarray \<Rightarrow> ndarray \<Rightarrow> bool" where
  "padded_sum fp a b r \<longleftrightarrow>
     (let rows = max (dimensions a ! 0) (dimensions b ! 0);
          cols = max (dimensions a ! 1) (dimensions b ! 1)
      in \<forall>i < unat rows. \<forall>j < unat cols.
           (if dtype a = tag_d
            then get_d (data r) (of_nat i * cols + of_nat j)
                   = Some (lift2 (d_add fp) (padded fp a i j) (padded fp b i j))
            else get_f (data r) (of_nat i * cols + of_nat j)
                   = Some (map_option (d2f fp) (lift2 (d_add fp) (padded fp a i j) (padded fp b i j)))))"

text \<open>
  What a setter is to achieve: it returns 0, and \<open>ndarray_get_point\<close> of the same index then
  points to the cells \<open>cs\<close>.
\<close>

definition stored :: "u64 list \<Rightarrow> (int \<times> ndarray) option \<Rightarrow> cell list \<Rightarrow> bool" where
  "stored idx res cs \<longleftrightarrow>
     (\<exists>a'. res = Some (0, a') \<and>
           (ndarray_get_point a' idx \<bind> (\<lambda>p. load (data a') (unat p) (length cs))) = Some cs)"

section \<open>Example arrays\<close>

text \<open>
  The patterns of the \<open>double\<close>s 1.0, 2.0, 3.0 and 4.0, and small arrays that hold them,
  laid out as \<open>ndarray_create\<close> lays them out.
\<close>

abbreviation dbl_1 :: u64 where "dbl_1 \<equiv> 0x3FF0000000000000"
abbreviation dbl_2 :: u64 where "dbl_2 \<equiv> 0x4000000000000000"
abbreviation dbl_3 :: u64 where "dbl_3 \<equiv> 0x4008000000000000"
abbreviation dbl_4 :: u64 where "dbl_4 \<equiv> 0x4010000000000000"

text \<open>The 1 x 2 matrix \<open>[[1.0, 2.0]]\<close> and the 2 x 1 matrix \<open>[[3.0], [4.0]]\<close>.\<close>

definition row_12 :: ndarray where
  "row_12 = \<lparr> data = map Some (bytes_of 8 dbl_1 @ bytes_of 8 dbl_2),
              dimensions = [1, 2], strides = [Some 16, Some 8], nd = 2, dtype = tag_d \<rparr>"

definition col_34 :: ndarray where
  "col_34 = \<lparr> data = map Some (bytes_of 8 dbl_3 @ bytes_of 8 dbl_4),
              dimensions = [2, 1], strides = [Some 8, Some 8], nd = 2, dtype = tag_d \<rparr>"

text \<open>The vectors \<open>[1.0, 2.0]\<close> and \<open>[3.0]\<close> of rank 1.\<close>

definition vec_12 :: ndarray where
  "vec_12 = \<lparr> data = map Some (bytes_of 8 dbl_1 @ bytes_of 8 dbl_2),
              dimensions = [2], strides = [Some 8], nd = 1, dtype = tag_d \<rparr>"

definition vec_3 :: ndarray where
  "vec_3 = \<lparr> data = map Some (bytes_of 8 dbl_3),
             dimensions = [1], strides = [Some 8], nd = 1, dtype = tag_d \<rparr>"

text \<open>The 1 x 1 matrix \<open>[[1.0]]\<close> and the 1 x 2 matrix \<open>[[3.0, 4.0]]\<close>.\<close>

definition cell_1 :: ndarray where
  "cell_1 = \<lparr> data = map Some (bytes_of 8 dbl_1),
              dimensions = [1, 1], strides = [Some 8, Some 8], nd = 2, dtype = tag_d \<rparr>"

definition row_34 :: ndarray where
  "row_34 = \<lparr> data = map Some (bytes_of 8 dbl_3 @ bytes_of 8 dbl_4),
              dimensions = [1, 2], strides = [Some 16, Some 8], nd = 2, dtype = tag_d \<rparr>"

text \<open>Two arrays of rank 3 and shape 1 x 1 x 2: \<open>[[[1.0, 2.0]]]\<close> and \<open>[[[3.0, 4.0]]]\<close>.\<close>

definition cube_12 :: ndarray where
  "cube_12 = \<lparr> data = map Some (bytes_of 8 dbl_1 @ bytes_of 8 dbl_2),
               dimensions = [1, 1, 2], strides = [Some 16, Some 16, Some 8], nd = 3, dtype = tag_d \<rparr>"

definition cube_34 :: ndarray where
  "cube_34 = \<lparr> data = map Some (bytes_of 8 dbl_3 @ bytes_of 8 dbl_4),
               dimensions = [1, 1, 2], strides = [Some 16, Some 16, Some 8], nd = 3, dtype = tag_d \<rparr>"

text \<open>The 1 x 2 matrix \<open>[[1, 2]]\<close> of the integer dtype \<open>'i'\<close>.\<close>

definition int_row_12 :: ndarray where
  "int_row_12 = \<lparr> data = map Some (bytes_of 8 (1 :: u64) @ bytes_of 8 (2 :: u64)),
                  dimensions = [1, 2], strides = [Some 16, Some 8], nd = 2, dtype = tag_i \<rparr>"

text \<open>The 2 x 3 array of \<open>double\<close>s that \<open>ndarray_create\<close> returns, no cell written yet.\<close>

definition grid_23 :: ndarray where
  "grid_23 = \<lparr> data = replicate 48 None, dimensions = [2, 3], strides = [Some 24, Some 8],
               nd = 2, dtype = tag_d \<rparr>"

text \<open>A 1 x 2 array with the tag \<open>'x'\<close>, which is no dtype: its elements are single bytes.\<close>

definition tagx_row :: ndarray where
  "tagx_row = \<lparr> data = [Some 1, Some 2], dimensions = [1, 2], strides = [Some 2, Some 1],
                nd = 2, dtype = 120 \<rparr>"

text \<open>The patterns of the \<open>float\<close>s 1.0 and 2.0, and the 1 x 2 matrix \<open>[[1.0, 2.0]]\<close> of dtype \<open>'f'\<close>.\<close>

abbreviation flt_1 :: u32 where "flt_1 \<equiv> 0x3F800000"
abbreviation flt_2 :: u32 where "flt_2 \<equiv> 0x40000000"

definition flt_row_12 :: ndarray where
  "flt_row_12 = \<lparr> data = map Some (bytes_of 4 flt_1 @ bytes_of 4 flt_2),
                  dimensions = [1, 2], strides = [Some 8, Some 4], nd = 2, dtype = tag_f \<rparr>"

section \<open>Running the model\<close>

lemma for_loop_numeral:
  "for_loop (numeral k) body s = for_loop (pred_numeral k) body s \<bind> body (pred_numeral k)"
  by (simp add: numeral_eq_Suc)

lemma for_loop_1: "for_loop 1 body s = body 0 s"
  by simp

lemma stride_loop_numeral:
  "stride_loop (numeral k) dims st =
     (if 2147483647 \<le> pred_numeral k then None
      else do {
        c \<leftarrow> rd st (numeral k);
        s \<leftarrow> c;
        d \<leftarrow> rd dims (numeral k);
        st' \<leftarrow> wr st (pred_numeral k) (Some (s * d));
        stride_loop (pred_numeral k) dims st'
      })"
  by (simp only: numeral_eq_Suc[of k] stride_loop.simps)

lemma stride_loop_1:
  "stride_loop 1 dims st = do {
     c \<leftarrow> rd st 1;
     s \<leftarrow> c;
     d \<leftarrow> rd dims 1;
     st' \<leftarrow> wr st 0 (Some (s * d));
     Some st'
   }"
proof -
  have "stride_loop 0 dims = Some" by (rule ext) simp
  then show ?thesis unfolding One_nat_def by simp
qed

lemma length_bytes_of [simp]: "length (bytes_of n w) = n"
  by (simp add: bytes_of_def)

lemma those_map_Some [simp]: "those (map Some xs) = Some xs"
  by (induction xs) simp_all

lemma word_of_bytes_Cons: "word_of_bytes (b # bs) = or (ucast b) (push_bit 8 (word_of_bytes bs))"
  by (simp add: word_of_bytes_def)

lemma bytes_of_Suc: "bytes_of (Suc n) w = ucast w # bytes_of n (drop_bit 8 w)"
  by (simp add: bytes_of_def upt_rec[of 0] map_Suc_upt[symmetric] drop_bit_drop_bit add.commute
      del: upt_Suc)

lemma low_byte_or_rest:
  "or (ucast (ucast (w::'a::len word) :: u8)) (push_bit 8 (take_bit (8 * n) (drop_bit 8 w)))
     = take_bit (8 * Suc n) w"
  by (rule bit_word_eqI) (auto simp add: bit_simps)

lemma word_of_bytes_of: "word_of_bytes (bytes_of n (w::'a::len word)) = take_bit (8 * n) w"
proof (induction n arbitrary: w)
  case 0
  then show ?case by (simp add: bytes_of_def word_of_bytes_def)
next
  case (Suc n)
  show ?case
    using Suc.IH[of "drop_bit 8 w"] by (simp only: bytes_of_Suc word_of_bytes_Cons low_byte_or_rest)
qed

lemma word_of_bytes_of_64 [simp]: "word_of_bytes (bytes_of 8 (w::u64)) = w"
  by (simp add: word_of_bytes_of take_bit_word_eq_self)

lemma word_of_bytes_of_32 [simp]: "word_of_bytes (bytes_of 4 (w::u32)) = w"
  by (simp add: word_of_bytes_of take_bit_word_eq_self)

lemma replicate_num: "replicate (numeral k) x = x # replicate (pred_numeral k) x"
  by (simp add: numeral_eq_Suc)

lemmas run_simps = for_loop_numeral for_loop_1 stride_loop_numeral stride_loop_1 replicate_num
  rd_def wr_def load_def store_def load64_def load32_def store64_def store32_def
  get_d_def set_d_def get_f_def set_f_def to_cells_def from_cells_def lift2_def
  calculate_type_size_def calculate_size_def ndarray_create_def result_or_create_def
  shape_differs_def ndarray_size_def

section \<open>Loops, strides and offsets\<close>

lemma for_loop_inv:
  assumes "P 0 s"
    and "\<And>i t. i < n \<Longrightarrow> P i t \<Longrightarrow> \<exists>t'. body i t = Some t' \<and> P (Suc i) t'"
  shows "\<exists>t. for_loop n body s = Some t \<and> P n t"
  using assms(2)
proof (induction n)
  case 0
  then show ?case using assms(1) by simp
next
  case (Suc n)
  then obtain t where t: "for_loop n body s = Some t" "P n t"
    by (metis less_Suc_eq)
  from Suc.prems[of n t] t obtain t' where "body n t = Some t'" "P (Suc n) t'"
    by auto
  with t show ?case by simp
qed

lemma for_loop_id: "for_loop n (\<lambda>i s. Some s) s = Some s"
  by (induction n) simp_all

lemma calculate_size_take:
  "unat n \<le> length dims \<Longrightarrow> calculate_size dims n = Some (prod_list (take (unat n) dims))"
proof -
  have "k \<le> length dims \<Longrightarrow>
        for_loop k (\<lambda>i size. do { d \<leftarrow> rd dims i; Some (size * d) }) 1 = Some (prod_list (take k dims))" for k
    by (induction k) (simp_all add: rd_def take_Suc_conv_app_nth)
  then show "unat n \<le> length dims \<Longrightarrow> ?thesis"
    by (simp add: calculate_size_def)
qed

lemma stride_loop_row_major:
  assumes "length st = length dims" "k < length dims" "k \<le> 2147483647"
    and "\<And>i. k \<le> i \<Longrightarrow> i < length dims \<Longrightarrow> st ! i = Some (esz * prod_list (drop (Suc i) dims))"
  shows "stride_loop k dims st = Some (map Some (row_major dims esz))"
  using assms
proof (induction k arbitrary: st)
  case 0
  have "st = map Some (row_major dims esz)"
    by (rule nth_equalityI) (simp_all add: "0.prems" row_major_def)
  then show ?case by simp
next
  case (Suc k)
  let ?s = "esz * prod_list (drop (Suc (Suc k)) dims)"
  let ?st = "st[k := Some (?s * dims ! Suc k)]"
  have a: "st ! Suc k = Some ?s" using Suc.prems by simp
  have b: "?s * dims ! Suc k = esz * prod_list (drop (Suc k) dims)"
    using Suc.prems(2) by (simp add: Cons_nth_drop_Suc[symmetric] mult.commute mult.left_commute)
  have "stride_loop k dims ?st = Some (map Some (row_major dims esz))"
  proof (rule Suc.IH)
    show "length ?st = length dims" using Suc.prems by simp
    show "k < length dims" using Suc.prems by simp
    show "k \<le> 2147483647" using Suc.prems by simp
    fix i assume "k \<le> i" "i < length dims"
    then show "?st ! i = Some (esz * prod_list (drop (Suc i) dims))"
      using Suc.prems b by (cases "i = k") (simp_all)
  qed
  then show ?case using a Suc.prems by (simp add: rd_def wr_def)
qed

lemma unat_rank_minus_1:
  fixes n :: u32
  assumes "1 \<le> unat n"
  shows "unat (n - 1) = unat n - 1"
proof -
  have "n \<noteq> 0" using assms by auto
  then show ?thesis by (rule unat_minus_one)
qed

lemma unat_rank_minus_2:
  fixes n :: u32
  assumes "2 \<le> unat n"
  shows "unat (n - 2) = unat n - 2"
proof -
  have "(2::u32) \<le> n" using assms by (simp add: word_le_nat_alt)
  then show ?thesis by (simp add: unat_sub)
qed

lemma sint_small:
  fixes w :: u32
  assumes "unat w < 2 ^ 31"
  shows "sint w = int (unat w)"
proof -
  have eq: "int (unat w) = uint w" by simp
  have "int (unat w) < int (2 ^ 31)" using assms by (simp only: of_nat_less_iff)
  then have lt: "uint w < 2 ^ 31" by (simp only: eq of_nat_power of_nat_numeral)
  have ge: "- (2 ^ 31) \<le> uint w"
    by (rule order_trans[of _ 0]) simp_all
  have "signed_take_bit 31 (uint w) = uint w"
    using ge lt by (rule signed_take_bit_int_eq_self)
  then have "sint w = uint w" by (simp add: sint_uint)
  then show ?thesis by (simp only: eq)
qed

lemma stride_loop_count:
  fixes n :: u32
  assumes "1 \<le> unat n" "unat n \<le> 2 ^ 31 + 1"
  shows "nat (sint (n - 2) + 1) = unat n - 1"
proof (cases "unat n = 1")
  case True
  then have "n = 1" by (metis unat_1 word_unat_eq_iff)
  then show ?thesis by simp
next
  case False
  then have ge: "2 \<le> unat n" using assms by simp
  have u2: "unat (n - 2) = unat n - 2" using ge by (rule unat_rank_minus_2)
  have "unat (n - 2) < 2 ^ 31" using u2 assms ge by simp
  then have "sint (n - 2) = int (unat (n - 2))" by (rule sint_small)
  then have "sint (n - 2) + 1 = int (unat n - 1)" using ge unfolding u2 by linarith
  then show ?thesis by (simp only: nat_int)
qed


lemma ndarray_create_row_major:
  assumes "1 \<le> unat n" "unat n \<le> 2 ^ 31" "unat n \<le> length dims"
  shows "ndarray_create dims n dt =
     Some (Ptr \<lparr> data = replicate (unat (prod_list (take (unat n) dims) * calculate_type_size dt)) None,
                 dimensions = take (unat n) dims,
                 strides = map Some (row_major (take (unat n) dims) (calculate_type_size dt)),
                 nd = n, dtype = dt \<rparr>)"
proof -
  let ?N = "unat n" and ?ds = "take (unat n) dims" and ?e = "calculate_type_size dt"
  let ?st0 = "(replicate ?N None)[?N - 1 := Some ?e]"
  have len: "length ?ds = ?N" using assms(3) by simp
  have w: "wr (replicate ?N None) (unat (n - 1)) (Some ?e) = Some ?st0"
    using assms(1) by (simp add: wr_def unat_rank_minus_1)
  have "stride_loop (?N - 1) ?ds ?st0 = Some (map Some (row_major ?ds ?e))"
  proof (rule stride_loop_row_major)
    show "length ?st0 = length ?ds" using len by simp
    show "?N - 1 < length ?ds" using len assms(1) by simp
    show "?N - 1 \<le> 2147483647" using assms(2) by simp
    fix i assume "?N - 1 \<le> i" "i < length ?ds"
    then have "i = ?N - 1" using len by linarith
    then show "?st0 ! i = Some (?e * prod_list (drop (Suc i) ?ds))"
      using len assms(1) by simp
  qed
  then have s: "stride_loop (nat (sint (n - 2) + 1)) ?ds ?st0 = Some (map Some (row_major ?ds ?e))"
    using assms by (simp only: stride_loop_count)
  show ?thesis
    using w s assms(3) by (simp add: ndarray_create_def calculate_size_take)
qed

lemma row_major_nth:
  "i < length dims \<Longrightarrow> row_major dims e ! i = e * prod_list (drop (Suc i) dims)"
  by (simp add: row_major_def)

lemma length_row_major [simp]: "length (row_major dims e) = length dims"
  by (simp add: row_major_def)

lemma row_major_step:
  "Suc i < length dims \<Longrightarrow> row_major dims e ! i = row_major dims e ! Suc i * dims ! Suc i"
  by (simp add: row_major_nth Cons_nth_drop_Suc[symmetric] mult.commute mult.left_commute)

lemma row_major_stride_invariant:
  assumes "strides a = map Some (row_major (dimensions a) (calculate_type_size (dtype a)))"
    and "length (dimensions a) = unat (nd a)" "1 \<le> unat (nd a)"
  shows "stride_invariant a"
proof -
  let ?n = "unat (nd a)" and ?r = "row_major (dimensions a) (calculate_type_size (dtype a))"
  have "rd (strides a) (?n - 1) = Some (Some (calculate_type_size (dtype a)))"
    using assms by (simp add: rd_def row_major_nth)
  moreover have "\<exists>s d. rd (strides a) (Suc i) = Some (Some s) \<and> rd (dimensions a) (Suc i) = Some d \<and>
                  rd (strides a) i = Some (Some (s * d))" if "Suc i < ?n" for i
  proof -
    have "?r ! i = ?r ! Suc i * dimensions a ! Suc i"
      using that assms(2) by (intro row_major_step) simp
    then show ?thesis using that assms(1,2) by (simp add: rd_def)
  qed
  ultimately show ?thesis by (simp add: stride_invariant_def Let_def)
qed

lemma stride_invariant_row_major:
  assumes "stride_invariant a" "length (dimensions a) = unat (nd a)"
    "length (strides a) = unat (nd a)" "1 \<le> unat (nd a)"
  shows "strides a = map Some (row_major (dimensions a) (calculate_type_size (dtype a)))"
proof -
  let ?n = "unat (nd a)" and ?e = "calculate_type_size (dtype a)"
  have inv1: "rd (strides a) (?n - 1) = Some (Some ?e)"
    and inv2: "\<And>i. Suc i < ?n \<Longrightarrow> \<exists>s d. rd (strides a) (Suc i) = Some (Some s) \<and>
                 rd (dimensions a) (Suc i) = Some d \<and> rd (strides a) i = Some (Some (s * d))"
    using assms(1) by (simp_all add: stride_invariant_def Let_def)
  have last: "strides a ! (?n - 1) = Some ?e"
    using inv1 assms(3,4) by (simp add: rd_def)
  have step: "strides a ! i = Some (s * dimensions a ! Suc i)"
    if "Suc i < ?n" "strides a ! Suc i = Some s" for i s
  proof -
    from inv2[OF that(1)] obtain s' d where
      "rd (strides a) (Suc i) = Some (Some s')" "rd (dimensions a) (Suc i) = Some d"
      "rd (strides a) i = Some (Some (s' * d))" by blast
    then show ?thesis using that assms(2,3) by (simp add: rd_def)
  qed
  have "k < ?n \<Longrightarrow> strides a ! (?n - 1 - k) = Some (row_major (dimensions a) ?e ! (?n - 1 - k))" for k
  proof (induction k)
    case 0
    then show ?case using last assms(2) by (simp add: row_major_nth)
  next
    case (Suc k)
    then have "strides a ! Suc (?n - 1 - Suc k) = Some (row_major (dimensions a) ?e ! Suc (?n - 1 - Suc k))"
      by (simp add: Suc_diff_Suc)
    then have "strides a ! (?n - 1 - Suc k) =
        Some (row_major (dimensions a) ?e ! Suc (?n - 1 - Suc k) * dimensions a ! Suc (?n - 1 - Suc k))"
      using Suc.prems by (intro step) simp_all
    then show ?case using Suc.prems assms(2) by (simp add: row_major_step)
  qed
  then have down: "\<And>k. k < ?n \<Longrightarrow> strides a ! (?n - 1 - k) = Some (row_major (dimensions a) ?e ! (?n - 1 - k))" .
  have "strides a ! i = Some (row_major (dimensions a) ?e ! i)" if "i < ?n" for i
  proof -
    have "?n - 1 - i < ?n" "?n - 1 - (?n - 1 - i) = i" using that by simp_all
    then show ?thesis using down[of "?n - 1 - i"] by simp
  qed
  then show ?thesis
    using assms by (intro nth_equalityI) simp_all
qed

lemma point_offset_sum:
  assumes "strides a = map Some ss" "length ss = unat (nd a)" "unat (nd a) \<le> length idx"
  shows "point_offset a idx = Some (\<Sum>i<unat (nd a). ss ! i * idx ! i)"
proof -
  have "k \<le> unat (nd a) \<Longrightarrow>
        for_loop k (\<lambda>i offset. do { c \<leftarrow> rd (strides a) i; s \<leftarrow> c; x \<leftarrow> rd idx i; Some (offset + s * x) }) 0
          = Some (\<Sum>i<k. ss ! i * idx ! i)" for k
  proof (induction k)
    case 0
    then show ?case by simp
  next
    case (Suc k)
    then have "k < unat (nd a)" "k < length idx" using assms(3) by simp_all
    then show ?case using Suc by (simp add: rd_def assms(1,2))
  qed
  then show ?thesis by (simp add: point_offset_def)
qed

lemma unat_sum_le: "unat (\<Sum>i<(n::nat). f i :: u64) \<le> (\<Sum>i<n. unat (f i))"
proof (induction n)
  case 0
  then show ?case by simp
next
  case (Suc n)
  have "unat (sum f {..<n} + f n) \<le> unat (sum f {..<n}) + unat (f n)"
    by (simp add: unat_word_ariths)
  then show ?case using Suc by simp
qed

lemma unat_mult_le: "unat (a * b :: u64) \<le> unat a * unat b"
  by (simp add: unat_word_ariths)

lemma unat_prod_list_le: "unat (prod_list ws :: u64) \<le> prod_list (map unat ws)"
proof (induction ws)
  case Nil
  then show ?case by simp
next
  case (Cons w ws)
  have "unat (w * prod_list ws) \<le> unat w * unat (prod_list ws)" by (rule unat_mult_le)
  also have "\<dots> \<le> unat w * prod_list (map unat ws)" using Cons by simp
  finally show ?case by simp
qed

text \<open>Row-major positions in the naturals: a position inside the extents is below the size.\<close>

lemma position_below_size:
  fixes ds xs :: "nat list"
  assumes "length xs = length ds" "\<And>i. i < length ds \<Longrightarrow> xs ! i < ds ! i"
  shows "(\<Sum>i<length ds. xs ! i * prod_list (drop (Suc i) ds)) + 1 \<le> prod_list ds"
  using assms
proof (induction ds arbitrary: xs)
  case Nil
  then show ?case by simp
next
  case (Cons d ds)
  then obtain x xs' where xs: "xs = x # xs'" by (cases xs) auto
  have x: "x < d" using Cons.prems(2)[of 0] xs by simp
  have "(\<Sum>i<length ds. xs' ! i * prod_list (drop (Suc i) ds)) + 1 \<le> prod_list ds"
  proof (rule Cons.IH)
    show "length xs' = length ds" using Cons.prems(1) xs by simp
    fix i assume "i < length ds"
    then show "xs' ! i < ds ! i" using Cons.prems(2)[of "Suc i"] xs by simp
  qed
  moreover have "(\<Sum>i<length (d # ds). xs ! i * prod_list (drop (Suc i) (d # ds)))
      = x * prod_list ds + (\<Sum>i<length ds. xs' ! i * prod_list (drop (Suc i) ds))"
    unfolding xs length_Cons sum.lessThan_Suc_shift by simp
  moreover have "x * prod_list ds + prod_list ds \<le> d * prod_list ds"
  proof -
    have "Suc x \<le> d" using x by simp
    then have "Suc x * prod_list ds \<le> d * prod_list ds" by (rule mult_le_mono1)
    then show ?thesis by simp
  qed
  ultimately show ?case by simp
qed

lemma offset_in_bounds:
  assumes "wf_array a" "in_bounds a idx"
  shows "\<exists>off. point_offset a idx = Some off \<and>
           off = (\<Sum>i<unat (nd a). the (strides a ! i) * idx ! i) \<and>
           unat off + unat (calculate_type_size (dtype a)) \<le> length (data a)"
proof -
  let ?n = "unat (nd a)" and ?e = "calculate_type_size (dtype a)" and ?ds = "dimensions a"
  let ?ss = "row_major ?ds ?e"
  let ?off = "\<Sum>i<?n. ?ss ! i * idx ! i"
  have wf: "1 \<le> ?n" "length ?ds = ?n" "length (strides a) = ?n" "stride_invariant a"
    "length (data a) = unat ?e * prod_list (map unat ?ds)"
    using assms(1) by (simp_all add: wf_array_def)
  have ib: "length idx = ?n" "\<And>i. i < ?n \<Longrightarrow> idx ! i < ?ds ! i"
    using assms(2) by (simp_all add: in_bounds_def)
  have st: "strides a = map Some ?ss"
    using wf by (intro stride_invariant_row_major) simp_all
  have po: "point_offset a idx = Some ?off"
    using st wf ib by (intro point_offset_sum) simp_all
  have same: "?off = (\<Sum>i<?n. the (strides a ! i) * idx ! i)"
    using wf by (intro sum.cong) (simp_all add: st)
  have bound_i: "unat (?ss ! i * idx ! i) \<le> unat ?e * (unat (idx ! i) * prod_list (drop (Suc i) (map unat ?ds)))"
    if "i < ?n" for i
  proof -
    have "unat (?ss ! i) \<le> unat ?e * unat (prod_list (drop (Suc i) ?ds))"
      using that wf by (simp add: row_major_nth unat_mult_le)
    also have "\<dots> \<le> unat ?e * prod_list (map unat (drop (Suc i) ?ds))"
      by (intro mult_le_mono2 unat_prod_list_le)
    finally have "unat (?ss ! i) \<le> unat ?e * prod_list (drop (Suc i) (map unat ?ds))"
      by (simp add: drop_map)
    then have "unat (?ss ! i) * unat (idx ! i) \<le> unat ?e * prod_list (drop (Suc i) (map unat ?ds)) * unat (idx ! i)"
      by (rule mult_le_mono1)
    moreover have "unat (?ss ! i * idx ! i) \<le> unat (?ss ! i) * unat (idx ! i)" by (rule unat_mult_le)
    ultimately have "unat (?ss ! i * idx ! i)
        \<le> unat ?e * prod_list (drop (Suc i) (map unat ?ds)) * unat (idx ! i)"
      by (rule order_trans[rotated])
    also have "\<dots> = unat ?e * (unat (idx ! i) * prod_list (drop (Suc i) (map unat ?ds)))"
      by (simp only: mult_ac)
    finally show ?thesis .
  qed
  have "unat ?off \<le> (\<Sum>i<?n. unat (?ss ! i * idx ! i))" by (rule unat_sum_le)
  also have "\<dots> \<le> (\<Sum>i<?n. unat ?e * (unat (idx ! i) * prod_list (drop (Suc i) (map unat ?ds))))"
    by (intro sum_mono bound_i) simp
  also have "\<dots> = unat ?e * (\<Sum>i<?n. map unat idx ! i * prod_list (drop (Suc i) (map unat ?ds)))"
    using ib by (simp add: sum_distrib_left)
  finally have le: "unat ?off \<le> unat ?e * (\<Sum>i<?n. map unat idx ! i * prod_list (drop (Suc i) (map unat ?ds)))" .
  have "(\<Sum>i<length (map unat ?ds). map unat idx ! i * prod_list (drop (Suc i) (map unat ?ds))) + 1
          \<le> prod_list (map unat ?ds)"
  proof (rule position_below_size)
    show "length (map unat idx) = length (map unat ?ds)" using ib wf by simp
    fix i assume "i < length (map unat ?ds)"
    then show "map unat idx ! i < map unat ?ds ! i"
      using ib wf by (simp add: word_less_nat_alt)
  qed
  then have "(\<Sum>i<?n. map unat idx ! i * prod_list (drop (Suc i) (map unat ?ds))) + 1 \<le> prod_list (map unat ?ds)"
    using wf by simp
  then have "unat ?e * ((\<Sum>i<?n. map unat idx ! i * prod_list (drop (Suc i) (map unat ?ds))) + 1)
       \<le> unat ?e * prod_list (map unat ?ds)"
    by (rule mult_le_mono2)
  then have "unat ?off + unat ?e \<le> length (data a)"
    using le wf(5) by (simp add: algebra_simps)
  then show ?thesis using po same by simp
qed

lemma load_store_same:
  assumes "store m off cs = Some m'"
  shows "load m' off (length cs) = Some cs"
proof -
  have le: "off + length cs \<le> length m" and m': "m' = take off m @ cs @ drop (off + length cs) m"
    using assms by (simp_all add: store_def split: if_splits)
  have "length m' = length m" using le by (simp add: m')
  moreover have "drop off m' = cs @ drop (off + length cs) m" using le by (simp add: m')
  ultimately show ?thesis using le by (simp add: load_def)
qed

lemma store_Some: "off + length cs \<le> length m \<Longrightarrow> \<exists>m'. store m off cs = Some m'"
  by (simp add: store_def)

lemma length_to_cells [simp]: "length (to_cells n v) = n"
  by (simp add: to_cells_def split: option.splits)

lemma from_to_cells_64 [simp]: "from_cells (to_cells 8 (Some (v::u64))) = Some v"
  by (simp add: from_cells_def to_cells_def)

lemma from_to_cells_32 [simp]: "from_cells (to_cells 4 (Some (v::u32))) = Some v"
  by (simp add: from_cells_def to_cells_def)

lemma point_offset_data [simp]: "point_offset (a\<lparr>data := m\<rparr>) idx = point_offset a idx"
  by (simp add: point_offset_def)

lemma store_then_read:
  assumes "point_offset a idx = Some off" "unat off + length cs \<le> length (data a)"
  shows "\<exists>m'. store (data a) (unat off) cs = Some m' \<and>
           (ndarray_get_point (a\<lparr>data := m'\<rparr>) idx \<bind> (\<lambda>p. load (data (a\<lparr>data := m'\<rparr>)) (unat p) (length cs))) = Some cs"
proof -
  from store_Some[OF assms(2)] obtain m' where m': "store (data a) (unat off) cs = Some m'" ..
  then have "load m' (unat off) (length cs) = Some cs" by (rule load_store_same)
  then show ?thesis using m' assms(1) by (simp add: ndarray_get_point_def)
qed

lemma wf_grid_23: "wf_array grid_23"
proof -
  have "stride_invariant grid_23"
    by (rule row_major_stride_invariant)
       (simp_all add: grid_23_def row_major_def calculate_type_size_def upt_rec)
  then show ?thesis by (simp add: wf_array_def grid_23_def calculate_type_size_def)
qed

lemma in_bounds_grid_23: "in_bounds grid_23 [1, 2]"
  by (auto simp add: in_bounds_def grid_23_def less_2_cases_iff)

lemma sum_below_2: "(\<Sum>i<(2::nat). f i) = f 0 + (f 1 :: 'a :: comm_monoid_add)"
  by (simp add: numeral_2_eq_2)

text \<open>
  For a rank from 1 to \<open>2^31\<close>, \<open>ndarray_create\<close> returns an array that has the stride
  invariant. For the rank \<open>2^31 + 1\<close> the first index of the stride loop is undefined.
\<close>

lemma ndarray_create_stride_invariant:
  assumes "1 \<le> unat n" "unat n \<le> 2 ^ 31" "unat n \<le> length dims"
  shows "\<exists>a. ndarray_create dims n dt = Some (Ptr a) \<and> stride_invariant a"
proof -
  let ?a = "\<lparr> data = replicate (unat (prod_list (take (unat n) dims) * calculate_type_size dt)) None,
             dimensions = take (unat n) dims,
             strides = map Some (row_major (take (unat n) dims) (calculate_type_size dt)),
             nd = n, dtype = dt \<rparr>"
  have "ndarray_create dims n dt = Some (Ptr ?a)"
    using assms by (rule ndarray_create_row_major)
  moreover have "stride_invariant ?a"
    using assms by (intro row_major_stride_invariant) simp_all
  ultimately show ?thesis by blast
qed

lemma ndarray_create_undefined_at_int_max:
  "ndarray_create dims 2147483649 dt = None"
proof -
  show ?thesis
    by (cases "unat (2147483649 :: u32) \<le> length dims")
       (simp_all add: ndarray_create_def wr_def stride_loop_numeral)
qed

section \<open>Memory and the elementwise loops\<close>

lemma shape_differs_same:
  assumes "dimensions b = dimensions a" "unat (nd a) \<le> length (dimensions a)"
  shows "shape_differs a b = Some False"
proof -
  have "k \<le> length (dimensions a) \<Longrightarrow>
        for_loop k (\<lambda>i found. if found then Some True
          else do { x \<leftarrow> rd (dimensions a) i; y \<leftarrow> rd (dimensions b) i; Some (x \<noteq> y) }) False = Some False" for k
    by (induction k) (simp_all add: rd_def assms(1))
  then show ?thesis using assms(2) by (simp add: shape_differs_def)
qed

lemma add_other_tag:
  assumes "other_tag (dtype a)" "nd b = nd a" "dtype b = dtype a" "dimensions b = dimensions a"
    "length (dimensions a) = unat (nd a)" "2 \<le> unat (nd a)"
  shows "ndarray_add fp (Ptr r) a b = Some (Ptr r)"
    and "ndarray_add fp NULL a b = ndarray_create (dimensions a) (nd a) (dtype a)"
    and "ndarray_subtract fp (Ptr r) a b = Some (Ptr r)"
    and "ndarray_subtract fp NULL a b = ndarray_create (dimensions a) (nd a) (dtype a)"
proof -
  have sd: "shape_differs a b = Some False"
    using assms by (intro shape_differs_same) simp_all
  have tags: "dtype a \<noteq> tag_d" "dtype a \<noteq> tag_f"
    using assms(1) by (simp_all add: other_tag_def)
  have dims: "rd (dimensions a) 0 = Some (dimensions a ! 0)" "rd (dimensions a) (Suc 0) = Some (dimensions a ! 1)"
    using assms(5,6) by (simp_all add: rd_def)
  show "ndarray_add fp (Ptr r) a b = Some (Ptr r)"
    using assms(2,3) by (simp add: ndarray_add_def sd tags dims result_or_create_def for_loop_id)
  show "ndarray_subtract fp (Ptr r) a b = Some (Ptr r)"
    using assms(2,3) by (simp add: ndarray_subtract_def sd tags dims result_or_create_def for_loop_id)
  show "ndarray_add fp NULL a b = ndarray_create (dimensions a) (nd a) (dtype a)"
  proof (cases "ndarray_create (dimensions a) (nd a) (dtype a)")
    case None
    then show ?thesis using assms(2,3) by (simp add: ndarray_add_def sd result_or_create_def)
  next
    case (Some p)
    then show ?thesis using assms(2,3)
      by (cases p) (simp_all add: ndarray_add_def sd tags dims result_or_create_def for_loop_id)
  qed
  show "ndarray_subtract fp NULL a b = ndarray_create (dimensions a) (nd a) (dtype a)"
  proof (cases "ndarray_create (dimensions a) (nd a) (dtype a)")
    case None
    then show ?thesis using assms(2,3) by (simp add: ndarray_subtract_def sd result_or_create_def)
  next
    case (Some p)
    then show ?thesis using assms(2,3)
      by (cases p) (simp_all add: ndarray_subtract_def sd tags dims result_or_create_def for_loop_id)
  qed
qed

lemma dot_other_tag:
  assumes "other_tag (dtype a)" "nd a = 2" "nd b = 2" "dtype b = dtype a"
    "length (dimensions a) = 2" "length (dimensions b) = 2" "dimensions a ! 1 = dimensions b ! 0"
  shows "ndarray_dot fp (Ptr r) a b = Some (Ptr r)"
    and "ndarray_dot fp NULL a b = ndarray_create (dimensions a) (nd a) (dtype a)"
proof -
  have tags: "dtype a \<noteq> tag_d" "dtype a \<noteq> tag_f"
    using assms(1) by (simp_all add: other_tag_def)
  have dims: "rd (dimensions a) 0 = Some (dimensions a ! 0)" "rd (dimensions a) (Suc 0) = Some (dimensions b ! 0)"
    "rd (dimensions b) 0 = Some (dimensions b ! 0)" "rd (dimensions b) (Suc 0) = Some (dimensions b ! 1)"
    using assms(5,6,7) by (simp_all add: rd_def)
  show "ndarray_dot fp (Ptr r) a b = Some (Ptr r)"
    using assms(2,3,4) by (simp add: ndarray_dot_def tags dims result_or_create_def for_loop_id)
  show "ndarray_dot fp NULL a b = ndarray_create (dimensions a) (nd a) (dtype a)"
  proof (cases "ndarray_create (dimensions a) (nd a) (dtype a)")
    case None
    then show ?thesis using assms(2,3,4) by (simp add: ndarray_dot_def dims result_or_create_def)
  next
    case (Some p)
    then show ?thesis using assms(2,3,4)
      by (cases p) (simp_all add: ndarray_dot_def tags dims result_or_create_def for_loop_id)
  qed
qed

lemma length_store: "store m off cs = Some m' \<Longrightarrow> length m' = length m"
  by (auto simp add: store_def split: if_splits)

lemma store_nth:
  assumes "store m off cs = Some m'" "i < length m"
  shows "m' ! i = (if off \<le> i \<and> i < off + length cs then cs ! (i - off) else m ! i)"
proof -
  have le: "off + length cs \<le> length m" and m': "m' = take off m @ cs @ drop (off + length cs) m"
    using assms(1) by (simp_all add: store_def split: if_splits)
  show ?thesis
    using le assms(2) by (auto simp add: m' nth_append)
qed

lemma load_store_other:
  assumes "store m off cs = Some m'" "off' + n \<le> off \<or> off + length cs \<le> off'"
  shows "load m' off' n = load m off' n"
proof (cases "off' + n \<le> length m")
  case False
  then show ?thesis using length_store[OF assms(1)] by (simp add: load_def)
next
  case True
  have "take n (drop off' m') = take n (drop off' m)"
  proof (rule nth_equalityI)
    show "length (take n (drop off' m')) = length (take n (drop off' m))"
      using length_store[OF assms(1)] by simp
    fix k assume "k < length (take n (drop off' m'))"
    then have k: "k < n" by simp
    then have "off' + k < length m" using True by simp
    from store_nth[OF assms(1) this] have "m' ! (off' + k) = m ! (off' + k)"
      using assms(2) k by auto
    then show "take n (drop off' m') ! k = take n (drop off' m) ! k"
      using k True length_store[OF assms(1)] by simp
  qed
  then show ?thesis using True length_store[OF assms(1)] by (simp add: load_def)
qed

lemma from_to_cells_any_64 [simp]: "from_cells (to_cells 8 v) = (v :: u64 option)"
  by (cases v) (simp_all add: from_cells_def to_cells_def replicate_num)

lemma from_to_cells_any_32 [simp]: "from_cells (to_cells 4 v) = (v :: u32 option)"
  by (cases v) (simp_all add: from_cells_def to_cells_def replicate_num)

lemma get_d_set_d_same: "set_d m i v = Some m' \<Longrightarrow> get_d m' i = Some v"
  using load_store_same[of m "8 * unat i" "to_cells 8 v" m']
  by (simp add: set_d_def get_d_def store64_def load64_def)

lemma get_f_set_f_same: "set_f m i v = Some m' \<Longrightarrow> get_f m' i = Some v"
  using load_store_same[of m "4 * unat i" "to_cells 4 v" m']
  by (simp add: set_f_def get_f_def store32_def load32_def)

lemma get_d_set_d_other:
  assumes "set_d m i v = Some m'" "i \<noteq> j"
  shows "get_d m' j = get_d m j"
proof -
  have "unat i \<noteq> unat j" using assms(2) by (simp add: word_unat_eq_iff)
  then have "8 * unat j + 8 \<le> 8 * unat i \<or> 8 * unat i + 8 \<le> 8 * unat j" by arith
  then have "load m' (8 * unat j) 8 = load m (8 * unat j) 8"
    using assms(1) by (intro load_store_other[where off = "8 * unat i" and cs = "to_cells 8 v"])
      (simp_all add: set_d_def store64_def)
  then show ?thesis by (simp add: get_d_def load64_def)
qed

lemma get_f_set_f_other:
  assumes "set_f m i v = Some m'" "i \<noteq> j"
  shows "get_f m' j = get_f m j"
proof -
  have "unat i \<noteq> unat j" using assms(2) by (simp add: word_unat_eq_iff)
  then have "4 * unat j + 4 \<le> 4 * unat i \<or> 4 * unat i + 4 \<le> 4 * unat j" by arith
  then have "load m' (4 * unat j) 4 = load m (4 * unat j) 4"
    using assms(1) by (intro load_store_other[where off = "4 * unat i" and cs = "to_cells 4 v"])
      (simp_all add: set_f_def store32_def)
  then show ?thesis by (simp add: get_f_def load32_def)
qed

lemma set_d_Some: "8 * unat i + 8 \<le> length m \<Longrightarrow> \<exists>m'. set_d m i v = Some m' \<and> length m' = length m"
  by (simp add: set_d_def store64_def store_def)

lemma set_f_Some: "4 * unat i + 4 \<le> length m \<Longrightarrow> \<exists>m'. set_f m i v = Some m' \<and> length m' = length m"
  by (simp add: set_f_def store32_def store_def)

lemma get_d_Some: "8 * unat i + 8 \<le> length m \<Longrightarrow> \<exists>x. get_d m i = Some x"
  by (simp add: get_d_def load64_def load_def)

lemma get_f_Some: "4 * unat i + 4 \<le> length m \<Longrightarrow> \<exists>x. get_f m i = Some x"
  by (simp add: get_f_def load32_def load_def)

lemma unat_of_nat_64: "i < 2 ^ 64 \<Longrightarrow> unat (of_nat i :: u64) = i"
  by (simp add: unat_of_nat take_bit_nat_eq_self)

text \<open>The loop of an elementwise operation on \<open>double\<close>s.\<close>

lemma elementwise_loop_d:
  assumes "8 * n \<le> length ma" "8 * n \<le> length mb" "8 * n \<le> length m0" "n \<le> 2 ^ 64"
  shows "\<exists>m. for_loop n (\<lambda>i m. do {
                 x \<leftarrow> get_d ma (of_nat i);
                 y \<leftarrow> get_d mb (of_nat i);
                 set_d m (of_nat i) (lift2 f x y) }) m0 = Some m
             \<and> length m = length m0
             \<and> (\<forall>i<n. \<exists>x y. get_d ma (of_nat i) = Some x \<and> get_d mb (of_nat i) = Some y
                          \<and> get_d m (of_nat i) = Some (lift2 f x y))"
proof (rule for_loop_inv)
  show "length m0 = length m0 \<and> (\<forall>i<0. \<exists>x y. get_d ma (of_nat i) = Some x \<and> get_d mb (of_nat i) = Some y
                          \<and> get_d m0 (of_nat i) = Some (lift2 f x y))"
    by simp
next
  fix k t
  assume k: "k < n"
    and inv: "length t = length m0 \<and> (\<forall>i<k. \<exists>x y. get_d ma (of_nat i) = Some x \<and> get_d mb (of_nat i) = Some y
                          \<and> get_d t (of_nat i) = Some (lift2 f x y))"
  have uk: "unat (of_nat k :: u64) = k" using k assms(4) by (intro unat_of_nat_64) simp
  have fit: "8 * k + 8 \<le> 8 * n" using k by simp
  obtain x where x: "get_d ma (of_nat k) = Some x"
    using get_d_Some[of "of_nat k" ma] fit assms(1) uk by auto
  obtain y where y: "get_d mb (of_nat k) = Some y"
    using get_d_Some[of "of_nat k" mb] fit assms(2) uk by auto
  obtain t' where t': "set_d t (of_nat k) (lift2 f x y) = Some t'" "length t' = length t"
    using set_d_Some[of "of_nat k" t] fit assms(3) uk inv by auto
  have "\<exists>x y. get_d ma (of_nat i) = Some x \<and> get_d mb (of_nat i) = Some y
               \<and> get_d t' (of_nat i) = Some (lift2 f x y)" if "i < Suc k" for i
  proof (cases "i = k")
    case True
    then show ?thesis using x y get_d_set_d_same[OF t'(1)] by simp
  next
    case False
    then have ik: "i < k" using that by simp
    have "unat (of_nat i :: u64) = i" using ik k assms(4) by (intro unat_of_nat_64) simp
    then have "(of_nat k :: u64) \<noteq> of_nat i" using uk False by auto
    then have "get_d t' (of_nat i) = get_d t (of_nat i)"
      using t'(1) by (rule get_d_set_d_other[rotated])
    then show ?thesis using inv ik by simp
  qed
  then show "\<exists>t'. (do { x \<leftarrow> get_d ma (of_nat k); y \<leftarrow> get_d mb (of_nat k); set_d t (of_nat k) (lift2 f x y) }) = Some t'
             \<and> (length t' = length m0 \<and> (\<forall>i<Suc k. \<exists>x y. get_d ma (of_nat i) = Some x \<and> get_d mb (of_nat i) = Some y
                          \<and> get_d t' (of_nat i) = Some (lift2 f x y)))"
    using x y t' inv by simp
qed

lemma elementwise_loop_f:
  assumes "4 * n \<le> length ma" "4 * n \<le> length mb" "4 * n \<le> length m0" "n \<le> 2 ^ 64"
  shows "\<exists>m. for_loop n (\<lambda>i m. do {
                 x \<leftarrow> get_f ma (of_nat i);
                 y \<leftarrow> get_f mb (of_nat i);
                 set_f m (of_nat i) (lift2 f x y) }) m0 = Some m
             \<and> length m = length m0
             \<and> (\<forall>i<n. \<exists>x y. get_f ma (of_nat i) = Some x \<and> get_f mb (of_nat i) = Some y
                          \<and> get_f m (of_nat i) = Some (lift2 f x y))"
proof (rule for_loop_inv)
  show "length m0 = length m0 \<and> (\<forall>i<0. \<exists>x y. get_f ma (of_nat i) = Some x \<and> get_f mb (of_nat i) = Some y
                          \<and> get_f m0 (of_nat i) = Some (lift2 f x y))"
    by simp
next
  fix k t
  assume k: "k < n"
    and inv: "length t = length m0 \<and> (\<forall>i<k. \<exists>x y. get_f ma (of_nat i) = Some x \<and> get_f mb (of_nat i) = Some y
                          \<and> get_f t (of_nat i) = Some (lift2 f x y))"
  have uk: "unat (of_nat k :: u64) = k" using k assms(4) by (intro unat_of_nat_64) simp
  have fit: "4 * k + 4 \<le> 4 * n" using k by simp
  obtain x where x: "get_f ma (of_nat k) = Some x"
    using get_f_Some[of "of_nat k" ma] fit assms(1) uk by auto
  obtain y where y: "get_f mb (of_nat k) = Some y"
    using get_f_Some[of "of_nat k" mb] fit assms(2) uk by auto
  obtain t' where t': "set_f t (of_nat k) (lift2 f x y) = Some t'" "length t' = length t"
    using set_f_Some[of "of_nat k" t] fit assms(3) uk inv by auto
  have "\<exists>x y. get_f ma (of_nat i) = Some x \<and> get_f mb (of_nat i) = Some y
               \<and> get_f t' (of_nat i) = Some (lift2 f x y)" if "i < Suc k" for i
  proof (cases "i = k")
    case True
    then show ?thesis using x y get_f_set_f_same[OF t'(1)] by simp
  next
    case False
    then have ik: "i < k" using that by simp
    have "unat (of_nat i :: u64) = i" using ik k assms(4) by (intro unat_of_nat_64) simp
    then have "(of_nat k :: u64) \<noteq> of_nat i" using uk False by auto
    then have "get_f t' (of_nat i) = get_f t (of_nat i)"
      using t'(1) by (rule get_f_set_f_other[rotated])
    then show ?thesis using inv ik by simp
  qed
  then show "\<exists>t'. (do { x \<leftarrow> get_f ma (of_nat k); y \<leftarrow> get_f mb (of_nat k); set_f t (of_nat k) (lift2 f x y) }) = Some t'
             \<and> (length t' = length m0 \<and> (\<forall>i<Suc k. \<exists>x y. get_f ma (of_nat i) = Some x \<and> get_f mb (of_nat i) = Some y
                          \<and> get_f t' (of_nat i) = Some (lift2 f x y)))"
    using x y t' inv by simp
qed

lemma unat_prod_list_mod: "unat (prod_list ws :: u64) = prod_list (map unat ws) mod 2 ^ 64"
proof (induction ws)
  case Nil
  then show ?case by simp
next
  case (Cons w ws)
  have "unat (w * prod_list ws) = (unat w * unat (prod_list ws)) mod 2 ^ 64"
    by (simp add: unat_word_ariths)
  also have "\<dots> = (unat w * (prod_list (map unat ws) mod 2 ^ 64)) mod 2 ^ 64"
    by (simp only: Cons)
  also have "\<dots> = (unat w * prod_list (map unat ws)) mod 2 ^ 64"
    by (rule mod_mult_right_eq)
  finally show ?case by simp
qed

lemma unat_size_in_bytes:
  assumes "unat e * prod_list (map unat ws) < 2 ^ 64"
  shows "unat (prod_list ws * e :: u64) = unat e * prod_list (map unat ws)"
proof -
  have "unat (prod_list ws * e) = (unat (prod_list ws) * unat e) mod 2 ^ 64"
    by (simp add: unat_word_ariths)
  also have "\<dots> = ((prod_list (map unat ws) mod 2 ^ 64) * unat e) mod 2 ^ 64"
    by (simp only: unat_prod_list_mod)
  also have "\<dots> = (prod_list (map unat ws) * unat e) mod 2 ^ 64"
    by (rule mod_mult_left_eq)
  also have "\<dots> = unat e * prod_list (map unat ws)"
    using assms by (simp add: mult.commute)
  finally show ?thesis .
qed

text \<open>A fresh array of the shape and dtype of a well-formed one: the same, with no cell written.\<close>

lemma ndarray_create_like:
  assumes "wf_array a" "unat (nd a) \<le> 2 ^ 31"
  shows "ndarray_create (dimensions a) (nd a) (dtype a) = Some (Ptr (a\<lparr>data := replicate (length (data a)) None\<rparr>))"
proof -
  let ?e = "calculate_type_size (dtype a)"
  have wf: "1 \<le> unat (nd a)" "length (dimensions a) = unat (nd a)" "length (strides a) = unat (nd a)"
    "stride_invariant a" "length (data a) = unat ?e * prod_list (map unat (dimensions a))"
    "length (data a) < 2 ^ 64"
    using assms(1) by (simp_all add: wf_array_def)
  have st: "strides a = map Some (row_major (dimensions a) ?e)"
    using wf by (intro stride_invariant_row_major) simp_all
  have sz: "unat (prod_list (dimensions a) * ?e) = length (data a)"
    using wf(5,6) by (simp add: unat_size_in_bytes)
  have "ndarray_create (dimensions a) (nd a) (dtype a) =
     Some (Ptr \<lparr> data = replicate (unat (prod_list (take (unat (nd a)) (dimensions a)) * ?e)) None,
                 dimensions = take (unat (nd a)) (dimensions a),
                 strides = map Some (row_major (take (unat (nd a)) (dimensions a)) ?e),
                 nd = nd a, dtype = dtype a \<rparr>)"
    using wf(1) assms(2) wf(2) by (intro ndarray_create_row_major) simp_all
  then show ?thesis using wf(2) st sz by simp
qed

text \<open>What an elementwise operation on two arrays of rank 2 starts from.\<close>

lemma rank2_operands:
  assumes "wf_array a" "wf_array b" "nd a = 2" "nd b = 2" "dtype b = dtype a" "dimensions b = dimensions a"
  obtains d0 d1 where "dimensions a = [d0, d1]"
    and "length (data a) = unat (calculate_type_size (dtype a)) * (unat d0 * unat d1)"
    and "length (data b) = length (data a)"
    and "shape_differs a b = Some False"
    and "result_or_create NULL a = Some (Ptr (a\<lparr>data := replicate (length (data a)) None\<rparr>))"
    and "calculate_type_size (dtype a) \<noteq> 0 \<Longrightarrow> unat (d0 * d1) = unat d0 * unat d1"
proof -
  let ?e = "calculate_type_size (dtype a)"
  have wfa: "length (dimensions a) = 2" "length (data a) = unat ?e * prod_list (map unat (dimensions a))"
    "length (data a) < 2 ^ 64"
    using assms(1,3) by (simp_all add: wf_array_def)
  have wfb: "length (data b) = unat ?e * prod_list (map unat (dimensions a))"
    using assms(2,5,6) by (simp add: wf_array_def)
  obtain d0 d1 where ds: "dimensions a = [d0, d1]"
    using wfa(1) by (cases "dimensions a"; cases "tl (dimensions a)") auto
  have len: "length (data a) = unat ?e * (unat d0 * unat d1)"
    using wfa(2) by (simp add: ds)
  have sd: "shape_differs a b = Some False"
    using assms(3,6) wfa(1) by (intro shape_differs_same) simp_all
  have cr: "result_or_create NULL a = Some (Ptr (a\<lparr>data := replicate (length (data a)) None\<rparr>))"
    using ndarray_create_like[OF assms(1)] assms(3) by (simp add: result_or_create_def)
  have nz: "unat (d0 * d1) = unat d0 * unat d1" if "?e \<noteq> 0"
  proof -
    have "1 \<le> unat ?e" using that by (simp add: unat_gt_0 Suc_le_eq)
    then have "1 * (unat d0 * unat d1) \<le> unat ?e * (unat d0 * unat d1)" by (rule mult_le_mono1)
    then have "unat d0 * unat d1 \<le> length (data a)" by (simp only: len mult_1)
    then have "unat d0 * unat d1 < 2 ^ 64" using wfa(3) by (rule le_less_trans)
    then show ?thesis by (simp add: unat_mult_lem[symmetric])
  qed
  have lb: "length (data b) = length (data a)" using wfb wfa(2) by simp
  show thesis using ds len lb sd cr nz by (rule that)
qed

lemma ndarray_add_d:
  assumes "wf_array a" "wf_array b" "nd a = 2" "nd b = 2" "dtype a = tag_d" "dtype b = tag_d"
    "dimensions b = dimensions a"
  shows "\<exists>r. ndarray_add fp NULL a b = Some (Ptr r) \<and> r\<lparr>data := data a\<rparr> = a
           \<and> length (data r) = length (data a)
           \<and> (\<forall>i < prod_list (map unat (dimensions a)).
                 \<exists>x y. get_d (data a) (of_nat i) = Some x \<and> get_d (data b) (of_nat i) = Some y
                      \<and> get_d (data r) (of_nat i) = Some (lift2 (d_add fp) x y))"
proof -
  from assms obtain d0 d1 where ds: "dimensions a = [d0, d1]"
    and len: "length (data a) = unat (calculate_type_size (dtype a)) * (unat d0 * unat d1)"
    and lenb: "length (data b) = length (data a)"
    and sd: "shape_differs a b = Some False"
    and cr: "result_or_create NULL a = Some (Ptr (a\<lparr>data := replicate (length (data a)) None\<rparr>))"
    and nz: "calculate_type_size (dtype a) \<noteq> 0 \<Longrightarrow> unat (d0 * d1) = unat d0 * unat d1"
    by (elim rank2_operands[of a b]) simp_all
  let ?N = "unat d0 * unat d1"
  have e: "calculate_type_size (dtype a) = 8" using assms(5) by (simp add: calculate_type_size_def)
  have bound: "unat (d0 * d1) = ?N" using nz e by simp
  have lw: "length (data a) = 8 * ?N" using len e by simp
  have lt: "length (data a) < 2 ^ 64" using assms(1) by (simp add: wf_array_def)
  from elementwise_loop_d[of ?N "data a" "data b" "replicate (length (data a)) None" "d_add fp"]
  obtain m where m: "for_loop ?N (\<lambda>i m. do {
                 x \<leftarrow> get_d (data a) (of_nat i);
                 y \<leftarrow> get_d (data b) (of_nat i);
                 set_d m (of_nat i) (lift2 (d_add fp) x y) }) (replicate (length (data a)) None) = Some m"
    and lm: "length m = length (data a)"
    and cells: "\<forall>i<?N. \<exists>x y. get_d (data a) (of_nat i) = Some x \<and> get_d (data b) (of_nat i) = Some y
                          \<and> get_d m (of_nat i) = Some (lift2 (d_add fp) x y)"
    using lw lenb lt by auto
  have "ndarray_add fp NULL a b = Some (Ptr (a\<lparr>data := m\<rparr>))"
    using assms(3,4,5,6) by (simp add: ndarray_add_def sd cr ds rd_def bound m)
  then show ?thesis using lm cells by (simp add: ds)
qed

lemma ndarray_add_f:
  assumes "wf_array a" "wf_array b" "nd a = 2" "nd b = 2" "dtype a = tag_f" "dtype b = tag_f"
    "dimensions b = dimensions a"
  shows "\<exists>r. ndarray_add fp NULL a b = Some (Ptr r) \<and> r\<lparr>data := data a\<rparr> = a
           \<and> length (data r) = length (data a)
           \<and> (\<forall>i < prod_list (map unat (dimensions a)).
                 \<exists>x y. get_f (data a) (of_nat i) = Some x \<and> get_f (data b) (of_nat i) = Some y
                      \<and> get_f (data r) (of_nat i) = Some (lift2 (f_add fp) x y))"
proof -
  from assms obtain d0 d1 where ds: "dimensions a = [d0, d1]"
    and len: "length (data a) = unat (calculate_type_size (dtype a)) * (unat d0 * unat d1)"
    and lenb: "length (data b) = length (data a)"
    and sd: "shape_differs a b = Some False"
    and cr: "result_or_create NULL a = Some (Ptr (a\<lparr>data := replicate (length (data a)) None\<rparr>))"
    and nz: "calculate_type_size (dtype a) \<noteq> 0 \<Longrightarrow> unat (d0 * d1) = unat d0 * unat d1"
    by (elim rank2_operands[of a b]) simp_all
  let ?N = "unat d0 * unat d1"
  have e: "calculate_type_size (dtype a) = 4" using assms(5) by (simp add: calculate_type_size_def)
  have bound: "unat (d0 * d1) = ?N" using nz e by simp
  have lw: "length (data a) = 4 * ?N" using len e by simp
  have lt: "length (data a) < 2 ^ 64" using assms(1) by (simp add: wf_array_def)
  from elementwise_loop_f[of ?N "data a" "data b" "replicate (length (data a)) None" "f_add fp"]
  obtain m where m: "for_loop ?N (\<lambda>i m. do {
                 x \<leftarrow> get_f (data a) (of_nat i);
                 y \<leftarrow> get_f (data b) (of_nat i);
                 set_f m (of_nat i) (lift2 (f_add fp) x y) }) (replicate (length (data a)) None) = Some m"
    and lm: "length m = length (data a)"
    and cells: "\<forall>i<?N. \<exists>x y. get_f (data a) (of_nat i) = Some x \<and> get_f (data b) (of_nat i) = Some y
                          \<and> get_f m (of_nat i) = Some (lift2 (f_add fp) x y)"
    using lw lenb lt by auto
  have "ndarray_add fp NULL a b = Some (Ptr (a\<lparr>data := m\<rparr>))"
    using assms(3,4,5,6) by (simp add: ndarray_add_def sd cr ds rd_def bound m)
  then show ?thesis using lm cells by (simp add: ds)
qed

lemma ndarray_subtract_d:
  assumes "wf_array a" "wf_array b" "nd a = 2" "nd b = 2" "dtype a = tag_d" "dtype b = tag_d"
    "dimensions b = dimensions a"
  shows "\<exists>r. ndarray_subtract fp NULL a b = Some (Ptr r) \<and> r\<lparr>data := data a\<rparr> = a
           \<and> length (data r) = length (data a)
           \<and> (\<forall>i < prod_list (map unat (dimensions a)).
                 \<exists>x y. get_d (data a) (of_nat i) = Some x \<and> get_d (data b) (of_nat i) = Some y
                      \<and> get_d (data r) (of_nat i) = Some (lift2 (d_sub fp) x y))"
proof -
  from assms obtain d0 d1 where ds: "dimensions a = [d0, d1]"
    and len: "length (data a) = unat (calculate_type_size (dtype a)) * (unat d0 * unat d1)"
    and lenb: "length (data b) = length (data a)"
    and sd: "shape_differs a b = Some False"
    and cr: "result_or_create NULL a = Some (Ptr (a\<lparr>data := replicate (length (data a)) None\<rparr>))"
    and nz: "calculate_type_size (dtype a) \<noteq> 0 \<Longrightarrow> unat (d0 * d1) = unat d0 * unat d1"
    by (elim rank2_operands[of a b]) simp_all
  let ?N = "unat d0 * unat d1"
  have e: "calculate_type_size (dtype a) = 8" using assms(5) by (simp add: calculate_type_size_def)
  have bound: "unat (d0 * d1) = ?N" using nz e by simp
  have lw: "length (data a) = 8 * ?N" using len e by simp
  have lt: "length (data a) < 2 ^ 64" using assms(1) by (simp add: wf_array_def)
  from elementwise_loop_d[of ?N "data a" "data b" "replicate (length (data a)) None" "d_sub fp"]
  obtain m where m: "for_loop ?N (\<lambda>i m. do {
                 x \<leftarrow> get_d (data a) (of_nat i);
                 y \<leftarrow> get_d (data b) (of_nat i);
                 set_d m (of_nat i) (lift2 (d_sub fp) x y) }) (replicate (length (data a)) None) = Some m"
    and lm: "length m = length (data a)"
    and cells: "\<forall>i<?N. \<exists>x y. get_d (data a) (of_nat i) = Some x \<and> get_d (data b) (of_nat i) = Some y
                          \<and> get_d m (of_nat i) = Some (lift2 (d_sub fp) x y)"
    using lw lenb lt by auto
  have "ndarray_subtract fp NULL a b = Some (Ptr (a\<lparr>data := m\<rparr>))"
    using assms(3,4,5,6) by (simp add: ndarray_subtract_def sd cr ds rd_def bound m)
  then show ?thesis using lm cells by (simp add: ds)
qed

lemma ndarray_subtract_f:
  assumes "wf_array a" "wf_array b" "nd a = 2" "nd b = 2" "dtype a = tag_f" "dtype b = tag_f"
    "dimensions b = dimensions a"
  shows "\<exists>r. ndarray_subtract fp NULL a b = Some (Ptr r) \<and> r\<lparr>data := data a\<rparr> = a
           \<and> length (data r) = length (data a)
           \<and> (\<forall>i < prod_list (map unat (dimensions a)).
                 \<exists>x y. get_f (data a) (of_nat i) = Some x \<and> get_f (data b) (of_nat i) = Some y
                      \<and> get_f (data r) (of_nat i) = Some (lift2 (f_sub fp) x y))"
proof -
  from assms obtain d0 d1 where ds: "dimensions a = [d0, d1]"
    and len: "length (data a) = unat (calculate_type_size (dtype a)) * (unat d0 * unat d1)"
    and lenb: "length (data b) = length (data a)"
    and sd: "shape_differs a b = Some False"
    and cr: "result_or_create NULL a = Some (Ptr (a\<lparr>data := replicate (length (data a)) None\<rparr>))"
    and nz: "calculate_type_size (dtype a) \<noteq> 0 \<Longrightarrow> unat (d0 * d1) = unat d0 * unat d1"
    by (elim rank2_operands[of a b]) simp_all
  let ?N = "unat d0 * unat d1"
  have e: "calculate_type_size (dtype a) = 4" using assms(5) by (simp add: calculate_type_size_def)
  have bound: "unat (d0 * d1) = ?N" using nz e by simp
  have lw: "length (data a) = 4 * ?N" using len e by simp
  have lt: "length (data a) < 2 ^ 64" using assms(1) by (simp add: wf_array_def)
  from elementwise_loop_f[of ?N "data a" "data b" "replicate (length (data a)) None" "f_sub fp"]
  obtain m where m: "for_loop ?N (\<lambda>i m. do {
                 x \<leftarrow> get_f (data a) (of_nat i);
                 y \<leftarrow> get_f (data b) (of_nat i);
                 set_f m (of_nat i) (lift2 (f_sub fp) x y) }) (replicate (length (data a)) None) = Some m"
    and lm: "length m = length (data a)"
    and cells: "\<forall>i<?N. \<exists>x y. get_f (data a) (of_nat i) = Some x \<and> get_f (data b) (of_nat i) = Some y
                          \<and> get_f m (of_nat i) = Some (lift2 (f_sub fp) x y)"
    using lw lenb lt by auto
  have "ndarray_subtract fp NULL a b = Some (Ptr (a\<lparr>data := m\<rparr>))"
    using assms(3,4,5,6) by (simp add: ndarray_subtract_def sd cr ds rd_def bound m)
  then show ?thesis using lm cells by (simp add: ds)
qed

lemma wf_row_12: "wf_array row_12"
proof -
  have "stride_invariant row_12"
    by (rule row_major_stride_invariant)
       (simp_all add: row_12_def row_major_def calculate_type_size_def upt_rec)
  then show ?thesis by (simp add: wf_array_def row_12_def calculate_type_size_def)
qed

lemma wf_row_34: "wf_array row_34"
proof -
  have "stride_invariant row_34"
    by (rule row_major_stride_invariant)
       (simp_all add: row_34_def row_major_def calculate_type_size_def upt_rec)
  then show ?thesis by (simp add: wf_array_def row_34_def calculate_type_size_def)
qed

lemma wf_tagx_row: "wf_array tagx_row"
proof -
  have "stride_invariant tagx_row"
    by (rule row_major_stride_invariant)
       (simp_all add: tagx_row_def row_major_def calculate_type_size_def upt_rec)
  then show ?thesis by (simp add: wf_array_def tagx_row_def calculate_type_size_def)
qed

section \<open>Copy loops and the transposition of a matrix\<close>

text \<open>
  A loop that copies cell \<open>S j\<close> of a source to cell \<open>D j\<close> of a destination, for typed
  views \<open>g\<close> and \<open>s\<close> of the blocks in which a cell fits when \<open>fit\<close> says so.
\<close>

lemma scatter_loop:
  fixes g :: "mem \<Rightarrow> u64 \<Rightarrow> 'v option" and s :: "mem \<Rightarrow> u64 \<Rightarrow> 'v \<Rightarrow> mem option"
    and fit :: "nat \<Rightarrow> u64 \<Rightarrow> bool"
  assumes same: "\<And>m i v m'. s m i v = Some m' \<Longrightarrow> g m' i = Some v"
    and other: "\<And>m i v m' j. s m i v = Some m' \<Longrightarrow> i \<noteq> j \<Longrightarrow> g m' j = g m j"
    and totals: "\<And>m i v. fit (length m) i \<Longrightarrow> \<exists>m'. s m i v = Some m' \<and> length m' = length m"
    and totalg: "\<And>m i. fit (length m) i \<Longrightarrow> \<exists>x. g m i = Some x"
    and src: "\<And>j. j < c \<Longrightarrow> fit (length sm) (S j)"
    and dst: "\<And>j. j < c \<Longrightarrow> fit (length m0) (D j)"
    and inj: "inj_on D {..<c}"
  shows "\<exists>m. for_loop c (\<lambda>j m. do { v \<leftarrow> g sm (S j); s m (D j) v }) m0 = Some m
           \<and> length m = length m0
           \<and> (\<forall>j<c. \<exists>x. g sm (S j) = Some x \<and> g m (D j) = Some x)
           \<and> (\<forall>k. k \<notin> D ` {..<c} \<longrightarrow> g m k = g m0 k)"
proof -
  let ?P = "\<lambda>n m. length m = length m0
           \<and> (\<forall>j<n. \<exists>x. g sm (S j) = Some x \<and> g m (D j) = Some x)
           \<and> (\<forall>k. k \<notin> D ` {..<n} \<longrightarrow> g m k = g m0 k)"
  have "\<exists>m. for_loop c (\<lambda>j m. do { v \<leftarrow> g sm (S j); s m (D j) v }) m0 = Some m \<and> ?P c m"
  proof (rule for_loop_inv[where P = ?P])
    show "?P 0 m0" by simp
  next
    fix n t
    assume n: "n < c" and inv: "?P n t"
    obtain x where x: "g sm (S n) = Some x" using totalg[OF src[OF n]] by blast
    have "fit (length t) (D n)" using dst[OF n] inv by simp
    then obtain t' where t': "s t (D n) x = Some t'" "length t' = length t"
      using totals by blast
    have new: "g t' (D n) = Some x" using t'(1) by (rule same)
    have old: "g t' k = g t k" if "k \<noteq> D n" for k
      using other[OF t'(1), of k] that by auto
    have a: "\<exists>y. g sm (S j) = Some y \<and> g t' (D j) = Some y" if "j < Suc n" for j
    proof (cases "j = n")
      case True
      then show ?thesis using x new by simp
    next
      case False
      then have jn: "j < n" using that by simp
      then have "D j \<noteq> D n" using inj n by (auto simp add: inj_on_def)
      then show ?thesis using inv jn old by simp
    qed
    have b: "g t' k = g m0 k" if "k \<notin> D ` {..<Suc n}" for k
    proof -
      have "k \<noteq> D n" "k \<notin> D ` {..<n}" using that by (auto simp add: lessThan_Suc)
      then show ?thesis using inv old by simp
    qed
    show "\<exists>t'. (do { v \<leftarrow> g sm (S n); s t (D n) v }) = Some t' \<and> ?P (Suc n) t'"
      using x t' inv a b by auto
  qed
  then show ?thesis by blast
qed

text \<open>The same for two nested loops: row \<open>i\<close> copies the cells \<open>S i j\<close> to the cells \<open>D i j\<close>.\<close>

lemma scatter_loops:
  fixes g :: "mem \<Rightarrow> u64 \<Rightarrow> 'v option" and s :: "mem \<Rightarrow> u64 \<Rightarrow> 'v \<Rightarrow> mem option"
    and fit :: "nat \<Rightarrow> u64 \<Rightarrow> bool"
  assumes same: "\<And>m i v m'. s m i v = Some m' \<Longrightarrow> g m' i = Some v"
    and other: "\<And>m i v m' j. s m i v = Some m' \<Longrightarrow> i \<noteq> j \<Longrightarrow> g m' j = g m j"
    and totals: "\<And>m i v. fit (length m) i \<Longrightarrow> \<exists>m'. s m i v = Some m' \<and> length m' = length m"
    and totalg: "\<And>m i. fit (length m) i \<Longrightarrow> \<exists>x. g m i = Some x"
    and src: "\<And>i j. i < r \<Longrightarrow> j < c \<Longrightarrow> fit (length sm) (S i j)"
    and dst: "\<And>i j. i < r \<Longrightarrow> j < c \<Longrightarrow> fit (length m0) (D i j)"
    and inj: "\<And>i j i' j'. i < r \<Longrightarrow> j < c \<Longrightarrow> i' < r \<Longrightarrow> j' < c \<Longrightarrow> D i j = D i' j' \<Longrightarrow> i = i' \<and> j = j'"
  shows "\<exists>m. for_loop r (\<lambda>i. for_loop c (\<lambda>j m. do { v \<leftarrow> g sm (S i j); s m (D i j) v })) m0 = Some m
           \<and> length m = length m0
           \<and> (\<forall>i<r. \<forall>j<c. \<exists>x. g sm (S i j) = Some x \<and> g m (D i j) = Some x)"
proof -
  let ?P = "\<lambda>n m. length m = length m0 \<and> (\<forall>i<n. \<forall>j<c. \<exists>x. g sm (S i j) = Some x \<and> g m (D i j) = Some x)"
  have "\<exists>m. for_loop r (\<lambda>i. for_loop c (\<lambda>j m. do { v \<leftarrow> g sm (S i j); s m (D i j) v })) m0 = Some m \<and> ?P r m"
  proof (rule for_loop_inv[where P = ?P])
    show "?P 0 m0" by simp
  next
    fix n t
    assume n: "n < r" and inv: "?P n t"
    have "\<exists>m. for_loop c (\<lambda>j m. do { v \<leftarrow> g sm (S n j); s m (D n j) v }) t = Some m
           \<and> length m = length t
           \<and> (\<forall>j<c. \<exists>x. g sm (S n j) = Some x \<and> g m (D n j) = Some x)
           \<and> (\<forall>k. k \<notin> D n ` {..<c} \<longrightarrow> g m k = g t k)"
    proof (rule scatter_loop[where fit = fit, OF same other totals totalg])
      show "\<And>j. j < c \<Longrightarrow> fit (length sm) (S n j)" using src n by simp
      show "\<And>j. j < c \<Longrightarrow> fit (length t) (D n j)" using dst n inv by simp
      show "inj_on (D n) {..<c}" using inj n by (auto simp add: inj_on_def)
    qed
    then obtain t' where t': "for_loop c (\<lambda>j m. do { v \<leftarrow> g sm (S n j); s m (D n j) v }) t = Some t'"
      "length t' = length t" "\<And>j. j < c \<Longrightarrow> \<exists>x. g sm (S n j) = Some x \<and> g t' (D n j) = Some x"
      "\<And>k. k \<notin> D n ` {..<c} \<Longrightarrow> g t' k = g t k"
      by blast
    have "\<exists>x. g sm (S i j) = Some x \<and> g t' (D i j) = Some x" if "i < Suc n" "j < c" for i j
    proof (cases "i = n")
      case True
      then show ?thesis using t'(3) that by simp
    next
      case False
      then have i: "i < n" using that by simp
      have "D i j \<notin> D n ` {..<c}"
      proof
        assume "D i j \<in> D n ` {..<c}"
        then obtain j' where "j' < c" "D i j = D n j'" by auto
        then have "i = n" using inj[of i j n j'] i n that by simp
        then show False using False by simp
      qed
      then have "g t' (D i j) = g t (D i j)" by (rule t'(4))
      then show ?thesis using inv i that by simp
    qed
    then show "\<exists>t'. for_loop c (\<lambda>j m. do { v \<leftarrow> g sm (S n j); s m (D n j) v }) t = Some t' \<and> ?P (Suc n) t'"
      using t'(1,2) inv by simp
  qed
  then show ?thesis by blast
qed

lemma position_lt: "i < r \<Longrightarrow> j < c \<Longrightarrow> i * c + j < r * (c::nat)"
proof -
  assume i: "i < r" and j: "j < c"
  have "i * c + j < i * c + c" using j by simp
  also have "\<dots> = Suc i * c" by simp
  also have "\<dots> \<le> r * c" using i by (intro mult_le_mono1) simp
  finally show ?thesis .
qed

lemma position_inj:
  assumes "j < c" "j' < c" "i * c + j = i' * c + (j'::nat)"
  shows "i = i' \<and> j = j'"
proof -
  have "(i * c + j) div c = i" "(i * c + j) mod c = j" using assms(1) by simp_all
  moreover have "(i' * c + j') div c = i'" "(i' * c + j') mod c = j'" using assms(2) by simp_all
  ultimately show ?thesis using assms(3) by metis
qed

lemma unat_position:
  assumes "i < r" "j < unat c" "r * unat c < 2 ^ 64"
  shows "unat (of_nat i * c + of_nat j :: u64) = i * unat c + j"
proof -
  have lt: "i * unat c + j < 2 ^ 64"
    using position_lt[OF assms(1,2)] assms(3) by simp
  have i: "unat (of_nat i :: u64) = i"
  proof (cases "unat c = 0")
    case True
    then show ?thesis using assms(2) by simp
  next
    case False
    then have "1 \<le> unat c" by simp
    then have "i * 1 \<le> i * unat c" by (rule mult_le_mono2)
    then have "i \<le> i * unat c" by (simp only: mult_1_right)
    then have "i \<le> i * unat c + j" by (rule trans_le_add1)
    then have "i < 2 ^ 64" using lt by (rule le_less_trans)
    then show ?thesis by (rule unat_of_nat_64)
  qed
  have j: "unat (of_nat j :: u64) = j"
    using lt by (intro unat_of_nat_64) simp
  have "unat (of_nat i :: u64) * unat c < 2 ^ 64" using lt i by simp
  then have m: "unat (of_nat i * c) = i * unat c" using i by (simp add: unat_mult_lem[THEN iffD1])
  have "unat (of_nat i * c) + unat (of_nat j :: u64) < 2 ^ 64" using lt m j by simp
  then show ?thesis using m j by (simp add: unat_add_lem[THEN iffD1])
qed

lemma rank2_shape:
  assumes "wf_array a" "nd a = 2"
  obtains d0 d1 where "dimensions a = [d0, d1]"
    and "length (data a) = unat (calculate_type_size (dtype a)) * (unat d0 * unat d1)"
    and "length (data a) < 2 ^ 64"
proof -
  have wfa: "length (dimensions a) = 2"
    "length (data a) = unat (calculate_type_size (dtype a)) * prod_list (map unat (dimensions a))"
    "length (data a) < 2 ^ 64"
    using assms by (simp_all add: wf_array_def)
  obtain d0 d1 where ds: "dimensions a = [d0, d1]"
    using wfa(1) by (cases "dimensions a"; cases "tl (dimensions a)") auto
  show thesis using wfa(2,3) by (intro that[OF ds]) (simp_all add: ds)
qed

text \<open>
  \<open>ndarray_transpose\<close> on a matrix of dtype \<open>'d'\<close> or \<open>'f'\<close>: the result has the swapped shape,
  the stride invariant, and cell \<open>(j,i)\<close> of the result is cell \<open>(i,j)\<close> of the source.
\<close>

lemma ndarray_transpose_d:
  assumes "wf_array a" "nd a = 2" "dtype a = tag_d"
  shows "\<exists>r d0 d1. dimensions a = [d0, d1] \<and> ndarray_transpose a = Some (Ptr r)
           \<and> dimensions r = [d1, d0] \<and> nd r = 2 \<and> dtype r = dtype a \<and> stride_invariant r
           \<and> length (data r) = length (data a)
           \<and> (\<forall>i<unat d0. \<forall>j<unat d1. \<exists>x.
                 get_d (data a) (of_nat i * d1 + of_nat j) = Some x
               \<and> get_d (data r) (of_nat j * d0 + of_nat i) = Some x)"
proof -
  from assms(1,2) obtain d0 d1 where ds: "dimensions a = [d0, d1]"
    and len: "length (data a) = unat (calculate_type_size (dtype a)) * (unat d0 * unat d1)"
    and lt: "length (data a) < 2 ^ 64"
    by (rule rank2_shape)
  let ?r = "unat d0" and ?c = "unat d1"
  have e: "calculate_type_size (dtype a) = 8" using assms(3) by (simp add: calculate_type_size_def)
  have l8: "length (data a) = 8 * (?r * ?c)" using len e by simp
  have rc: "?r * ?c < 2 ^ 64" "?c * ?r < 2 ^ 64" using l8 lt by (simp_all add: mult.commute)
  let ?t0 = "\<lparr> data = replicate (8 * (?r * ?c)) None, dimensions = [d1, d0],
              strides = map Some (row_major [d1, d0] 8), nd = 2, dtype = tag_d \<rparr>"
  have sz: "unat (prod_list [d1, d0] * (8 :: u64)) = 8 * (?r * ?c)"
    using l8 lt unat_size_in_bytes[of 8 "[d1, d0]"] by (simp add: mult.commute)
  have cr: "ndarray_create [d1, d0] 2 tag_d = Some (Ptr ?t0)"
    using ndarray_create_row_major[of 2 "[d1, d0]" tag_d] sz
    by (simp add: calculate_type_size_def)
  let ?S = "\<lambda>i j. (of_nat i * d1 + of_nat j :: u64)" and ?D = "\<lambda>i j. (of_nat j * d0 + of_nat i :: u64)"
  have uS: "unat (?S i j) = i * ?c + j" if "i < ?r" "j < ?c" for i j
    using that rc(1) by (intro unat_position)
  have uD: "unat (?D i j) = j * ?r + i" if "i < ?r" "j < ?c" for i j
    using that rc(2) by (intro unat_position)
  have "\<exists>m. for_loop ?r (\<lambda>i. for_loop ?c (\<lambda>j m. do { v \<leftarrow> get_d (data a) (?S i j); set_d m (?D i j) v }))
               (replicate (8 * (?r * ?c)) None) = Some m
           \<and> length m = length (replicate (8 * (?r * ?c)) (None :: cell))
           \<and> (\<forall>i<?r. \<forall>j<?c. \<exists>x. get_d (data a) (?S i j) = Some x \<and> get_d m (?D i j) = Some x)"
  proof (rule scatter_loops[where fit = "\<lambda>n k. 8 * unat k + 8 \<le> n"])
    show "\<And>m i v m'. set_d m i v = Some m' \<Longrightarrow> get_d m' i = Some v" by (rule get_d_set_d_same)
    show "\<And>m i v m' j. set_d m i v = Some m' \<Longrightarrow> i \<noteq> j \<Longrightarrow> get_d m' j = get_d m j"
      by (rule get_d_set_d_other)
    show "\<And>m i v. 8 * unat i + 8 \<le> length m \<Longrightarrow> \<exists>m'. set_d m i v = Some m' \<and> length m' = length m"
      by (rule set_d_Some)
    show "\<And>m i. 8 * unat i + 8 \<le> length m \<Longrightarrow> \<exists>x. get_d m i = Some x" by (rule get_d_Some)
    show "8 * unat (?S i j) + 8 \<le> length (data a)" if "i < ?r" "j < ?c" for i j
      using position_lt[OF that] uS[OF that] l8 by simp
    show "8 * unat (?D i j) + 8 \<le> length (replicate (8 * (?r * ?c)) (None :: cell))" if "i < ?r" "j < ?c" for i j
      using position_lt[OF that(2,1)] uD[OF that] by (simp add: mult.commute)
    show "i = i' \<and> j = j'" if "i < ?r" "j < ?c" "i' < ?r" "j' < ?c" "?D i j = ?D i' j'" for i j i' j'
    proof -
      have "j * ?r + i = j' * ?r + i'" using that uD[of i j] uD[of i' j'] by simp
      then show ?thesis using position_inj[of i ?r i' j j'] that by simp
    qed
  qed
  then obtain m where m: "for_loop ?r (\<lambda>i. for_loop ?c (\<lambda>j m. do { v \<leftarrow> get_d (data a) (?S i j); set_d m (?D i j) v }))
               (replicate (8 * (?r * ?c)) None) = Some m"
    and lm: "length m = 8 * (?r * ?c)"
    and cells: "\<forall>i<?r. \<forall>j<?c. \<exists>x. get_d (data a) (?S i j) = Some x \<and> get_d m (?D i j) = Some x"
    by auto
  have "ndarray_transpose a = Some (Ptr (?t0\<lparr>data := m\<rparr>))"
    using assms(2,3) by (simp add: ndarray_transpose_def ds rd_def cr m)
  moreover have "stride_invariant (?t0\<lparr>data := m\<rparr>)"
    by (rule row_major_stride_invariant) (simp_all add: calculate_type_size_def)
  ultimately show ?thesis using ds lm l8 cells assms(3) by simp
qed


lemma ndarray_transpose_f:
  assumes "wf_array a" "nd a = 2" "dtype a = tag_f"
  shows "\<exists>r d0 d1. dimensions a = [d0, d1] \<and> ndarray_transpose a = Some (Ptr r)
           \<and> dimensions r = [d1, d0] \<and> nd r = 2 \<and> dtype r = dtype a \<and> stride_invariant r
           \<and> length (data r) = length (data a)
           \<and> (\<forall>i<unat d0. \<forall>j<unat d1. \<exists>x.
                 get_f (data a) (of_nat i * d1 + of_nat j) = Some x
               \<and> get_f (data r) (of_nat j * d0 + of_nat i) = Some x)"
proof -
  from assms(1,2) obtain d0 d1 where ds: "dimensions a = [d0, d1]"
    and len: "length (data a) = unat (calculate_type_size (dtype a)) * (unat d0 * unat d1)"
    and lt: "length (data a) < 2 ^ 64"
    by (rule rank2_shape)
  let ?r = "unat d0" and ?c = "unat d1"
  have e: "calculate_type_size (dtype a) = 4" using assms(3) by (simp add: calculate_type_size_def)
  have l4: "length (data a) = 4 * (?r * ?c)" using len e by simp
  have rc: "?r * ?c < 2 ^ 64" "?c * ?r < 2 ^ 64" using l4 lt by (simp_all add: mult.commute)
  let ?t0 = "\<lparr> data = replicate (4 * (?r * ?c)) None, dimensions = [d1, d0],
              strides = map Some (row_major [d1, d0] 4), nd = 2, dtype = tag_f \<rparr>"
  have sz: "unat (prod_list [d1, d0] * (4 :: u64)) = 4 * (?r * ?c)"
    using l4 lt unat_size_in_bytes[of 4 "[d1, d0]"] by (simp add: mult.commute)
  have cr: "ndarray_create [d1, d0] 2 tag_f = Some (Ptr ?t0)"
    using ndarray_create_row_major[of 2 "[d1, d0]" tag_f] sz
    by (simp add: calculate_type_size_def)
  let ?S = "\<lambda>i j. (of_nat i * d1 + of_nat j :: u64)" and ?D = "\<lambda>i j. (of_nat j * d0 + of_nat i :: u64)"
  have uS: "unat (?S i j) = i * ?c + j" if "i < ?r" "j < ?c" for i j
    using that rc(1) by (intro unat_position)
  have uD: "unat (?D i j) = j * ?r + i" if "i < ?r" "j < ?c" for i j
    using that rc(2) by (intro unat_position)
  have "\<exists>m. for_loop ?r (\<lambda>i. for_loop ?c (\<lambda>j m. do { v \<leftarrow> get_f (data a) (?S i j); set_f m (?D i j) v }))
               (replicate (4 * (?r * ?c)) None) = Some m
           \<and> length m = length (replicate (4 * (?r * ?c)) (None :: cell))
           \<and> (\<forall>i<?r. \<forall>j<?c. \<exists>x. get_f (data a) (?S i j) = Some x \<and> get_f m (?D i j) = Some x)"
  proof (rule scatter_loops[where fit = "\<lambda>n k. 4 * unat k + 4 \<le> n"])
    show "\<And>m i v m'. set_f m i v = Some m' \<Longrightarrow> get_f m' i = Some v" by (rule get_f_set_f_same)
    show "\<And>m i v m' j. set_f m i v = Some m' \<Longrightarrow> i \<noteq> j \<Longrightarrow> get_f m' j = get_f m j"
      by (rule get_f_set_f_other)
    show "\<And>m i v. 4 * unat i + 4 \<le> length m \<Longrightarrow> \<exists>m'. set_f m i v = Some m' \<and> length m' = length m"
      by (rule set_f_Some)
    show "\<And>m i. 4 * unat i + 4 \<le> length m \<Longrightarrow> \<exists>x. get_f m i = Some x" by (rule get_f_Some)
    show "4 * unat (?S i j) + 4 \<le> length (data a)" if "i < ?r" "j < ?c" for i j
      using position_lt[OF that] uS[OF that] l4 by simp
    show "4 * unat (?D i j) + 4 \<le> length (replicate (4 * (?r * ?c)) (None :: cell))" if "i < ?r" "j < ?c" for i j
      using position_lt[OF that(2,1)] uD[OF that] by (simp add: mult.commute)
    show "i = i' \<and> j = j'" if "i < ?r" "j < ?c" "i' < ?r" "j' < ?c" "?D i j = ?D i' j'" for i j i' j'
    proof -
      have "j * ?r + i = j' * ?r + i'" using that uD[of i j] uD[of i' j'] by simp
      then show ?thesis using position_inj[of i ?r i' j j'] that by simp
    qed
  qed
  then obtain m where m: "for_loop ?r (\<lambda>i. for_loop ?c (\<lambda>j m. do { v \<leftarrow> get_f (data a) (?S i j); set_f m (?D i j) v }))
               (replicate (4 * (?r * ?c)) None) = Some m"
    and lm: "length m = 4 * (?r * ?c)"
    and cells: "\<forall>i<?r. \<forall>j<?c. \<exists>x. get_f (data a) (?S i j) = Some x \<and> get_f m (?D i j) = Some x"
    by auto
  have "ndarray_transpose a = Some (Ptr (?t0\<lparr>data := m\<rparr>))"
    using assms(2,3) by (simp add: ndarray_transpose_def ds rd_def cr m)
  moreover have "stride_invariant (?t0\<lparr>data := m\<rparr>)"
    by (rule row_major_stride_invariant) (simp_all add: calculate_type_size_def)
  ultimately show ?thesis using ds lm l4 cells assms(3) by simp
qed

section \<open>Subsampling a matrix\<close>

lemma for_loop_cong:
  assumes "\<And>i s. i < n \<Longrightarrow> f i s = g i s"
  shows "for_loop n f s = for_loop n g s"
  using assms
proof (induction n)
  case 0
  then show ?case by simp
next
  case (Suc n)
  then have "for_loop n f s = for_loop n g s" by simp
  moreover have "f n = g n" using Suc.prems by (intro ext) simp
  ultimately show ?case by simp
qed

text \<open>The block \<open>indices\<close> after the loop that fills it.\<close>

lemma fill_indices:
  "k \<le> r \<Longrightarrow>
   for_loop k (\<lambda>i ind. wr ind i (Some (of_nat i :: u64))) (replicate r None)
     = Some (map (\<lambda>i. Some (of_nat i)) [0..<k] @ replicate (r - k) None)"
proof (induction k)
  case 0
  then show ?case by simp
next
  case (Suc k)
  then have "replicate (r - k) (None :: u64 option) = None # replicate (r - Suc k) None"
    by (cases "r - k") (simp_all add: Suc_diff_Suc)
  then show ?case using Suc by (simp add: wr_def list_update_append)
qed

text \<open>The shuffle swaps cells of \<open>indices\<close>: the block stays a permutation of the row numbers.\<close>

lemma shuffle_permutes:
  assumes "unat d0 = r"
  shows "k \<le> r \<Longrightarrow>
     \<exists>ind p. for_loop k (\<lambda>i ind. do {
                 let j = unat (rnd i mod d0);
                 temp \<leftarrow> rd ind i;
                 x \<leftarrow> rd ind j;
                 ind' \<leftarrow> wr ind i x;
                 wr ind' j temp }) (map (\<lambda>i. Some (of_nat i :: u64)) [0..<r]) = Some ind
            \<and> row_numbers r ind p"
proof (induction k)
  case 0
  have "row_numbers r (map (\<lambda>i. Some (of_nat i)) [0..<r]) [0..<r]"
    by (auto simp add: row_numbers_def)
  then show ?case by auto
next
  case (Suc k)
  then obtain ind p where loop: "for_loop k (\<lambda>i ind. do {
                 let j = unat (rnd i mod d0);
                 temp \<leftarrow> rd ind i;
                 x \<leftarrow> rd ind j;
                 ind' \<leftarrow> wr ind i x;
                 wr ind' j temp }) (map (\<lambda>i. Some (of_nat i :: u64)) [0..<r]) = Some ind"
    and p: "ind = map (\<lambda>k. Some (of_nat k)) p" "distinct p" "set p = {..<r}"
    by (auto simp add: row_numbers_def)
  have lp: "length p = r" using p(2,3) by (metis card_lessThan distinct_card)
  let ?j = "unat (rnd k mod d0)"
  have k: "k < r" using Suc.prems by simp
  then have "d0 \<noteq> 0" using assms by auto
  then have "rnd k mod d0 < d0" by (simp add: word_mod_less_divisor word_neq_0_conv)
  then have j: "?j < r" using assms by (simp add: word_less_nat_alt)
  let ?p = "p[k := p ! ?j, ?j := p ! k]"
  have "ind[k := ind ! ?j, ?j := ind ! k] = map (\<lambda>k. Some (of_nat k)) ?p"
    using k j lp by (simp add: p(1) map_update)
  moreover have "distinct ?p" using k j lp p(2) by (simp add: distinct_swap)
  moreover have "set ?p = {..<r}" using k j lp p(3) by (simp add: set_swap)
  ultimately have "row_numbers r (ind[k := ind ! ?j, ?j := ind ! k]) ?p"
    by (simp add: row_numbers_def)
  moreover have "length ind = r" using lp p(1) by simp
  ultimately show ?case using loop k j by (auto simp add: rd_def wr_def Let_def)
qed

text \<open>
  \<open>ndarray_subsample\<close> on a matrix of dtype \<open>'d'\<close> or \<open>'f'\<close> with fewer than \<open>2^61\<close> rows: row \<open>i\<close>
  of the result is row \<open>p ! i\<close> of the source, for a permutation \<open>p\<close> of the row numbers.
\<close>

lemma ndarray_subsample_d:
  assumes "wf_array a" "nd a = 2" "dtype a = tag_d" "dimensions a = [d0, d1]" "n \<le> d0"
    "unat d0 * 8 < 2 ^ 64"
  shows "\<exists>r p. ndarray_subsample rnd a n = Some (Ptr r)
           \<and> dimensions r = [n, d1] \<and> nd r = 2 \<and> dtype r = dtype a
           \<and> distinct p \<and> set p = {..<unat d0}
           \<and> (\<forall>i<unat n. \<forall>j<unat d1. \<exists>x.
                 get_d (data a) (of_nat (p ! i) * d1 + of_nat j) = Some x
               \<and> get_d (data r) (of_nat i * d1 + of_nat j) = Some x)"
proof -
  let ?r = "unat d0" and ?c = "unat d1" and ?n = "unat n"
  have e: "calculate_type_size (dtype a) = 8" using assms(3) by (simp add: calculate_type_size_def)
  have l8: "length (data a) = 8 * (?r * ?c)" and lt: "length (data a) < 2 ^ 64"
    using assms(1,4) e by (simp_all add: wf_array_def)
  have nr: "?n \<le> ?r" using assms(5) by (simp add: word_le_nat_alt)
  have rc: "?r * ?c < 2 ^ 64" using l8 lt by simp
  have "?n * ?c \<le> ?r * ?c" using nr by (rule mult_le_mono1)
  then have "8 * (?n * ?c) \<le> 8 * (?r * ?c)" by (rule mult_le_mono2)
  then have nc8: "8 * (?n * ?c) < 2 ^ 64" using lt unfolding l8 by (rule le_less_trans)
  have "?n * ?c \<le> 8 * (?n * ?c)" by simp
  then have nc1: "?n * ?c < 2 ^ 64" using nc8 by (rule le_less_trans)
  note nc = nc1 nc8
  \<comment> \<open>the shape of the result\<close>
  have nd1: "for_loop (unat (nd a) - 1)
                (\<lambda>k ds. do { d \<leftarrow> rd (dimensions a) (Suc k); wr ds (Suc k) (Some d) }) [Some n, None]
              = Some [Some n, Some d1]"
    using assms(2,4) by (simp add: rd_def wr_def)
  let ?t0 = "\<lparr> data = replicate (8 * (?n * ?c)) None, dimensions = [n, d1],
              strides = map Some (row_major [n, d1] 8), nd = 2, dtype = tag_d \<rparr>"
  have sz: "unat (prod_list [n, d1] * (8 :: u64)) = 8 * (?n * ?c)"
    using nc unat_size_in_bytes[of 8 "[n, d1]"] by simp
  have cr: "ndarray_create [n, d1] 2 tag_d = Some (Ptr ?t0)"
    using ndarray_create_row_major[of 2 "[n, d1]" tag_d] sz
    by (simp add: calculate_type_size_def)
  \<comment> \<open>the block of row numbers\<close>
  have cap: "unat (d0 * 8) div 8 = ?r"
    using assms(6) by (simp add: unat_mult_lem[THEN iffD1])
  have fill: "for_loop ?r (\<lambda>i ind. wr ind i (Some (of_nat i :: u64))) (replicate ?r None)
               = Some (map (\<lambda>i. Some (of_nat i)) [0..<?r])"
    using fill_indices[of ?r ?r] by simp
  from shuffle_permutes[of d0 ?r ?r rnd] obtain indices p where
    sh: "for_loop ?r (\<lambda>i ind. do {
                 let j = unat (rnd i mod d0);
                 temp \<leftarrow> rd ind i;
                 x \<leftarrow> rd ind j;
                 ind' \<leftarrow> wr ind i x;
                 wr ind' j temp }) (map (\<lambda>i. Some (of_nat i :: u64)) [0..<?r]) = Some indices"
    and p: "indices = map (\<lambda>k. Some (of_nat k)) p" "distinct p" "set p = {..<?r}"
    by (auto simp add: row_numbers_def)
  have lp: "length p = ?r" using p(2,3) by (metis card_lessThan distinct_card)
  have pi: "p ! i < ?r" if "i < ?n" for i
  proof -
    have "p ! i \<in> set p" using that nr lp by (intro nth_mem) simp
    then show ?thesis using p(3) by simp
  qed
  \<comment> \<open>the copy loop\<close>
  let ?S = "\<lambda>i j. (of_nat (p ! i) * d1 + of_nat j :: u64)" and ?D = "\<lambda>i j. (of_nat i * d1 + of_nat j :: u64)"
  have uS: "unat (?S i j) = p ! i * ?c + j" if "i < ?n" "j < ?c" for i j
    using pi[OF that(1)] that(2) rc by (intro unat_position)
  have uD: "unat (?D i j) = i * ?c + j" if "i < ?n" "j < ?c" for i j
    using that nc(1) by (intro unat_position)
  have "\<exists>m. for_loop ?n (\<lambda>i. for_loop ?c (\<lambda>j m. do { v \<leftarrow> get_d (data a) (?S i j); set_d m (?D i j) v }))
               (replicate (8 * (?n * ?c)) None) = Some m
           \<and> length m = length (replicate (8 * (?n * ?c)) (None :: cell))
           \<and> (\<forall>i<?n. \<forall>j<?c. \<exists>x. get_d (data a) (?S i j) = Some x \<and> get_d m (?D i j) = Some x)"
  proof (rule scatter_loops[where fit = "\<lambda>n k. 8 * unat k + 8 \<le> n"])
    show "\<And>m i v m'. set_d m i v = Some m' \<Longrightarrow> get_d m' i = Some v" by (rule get_d_set_d_same)
    show "\<And>m i v m' j. set_d m i v = Some m' \<Longrightarrow> i \<noteq> j \<Longrightarrow> get_d m' j = get_d m j"
      by (rule get_d_set_d_other)
    show "\<And>m i v. 8 * unat i + 8 \<le> length m \<Longrightarrow> \<exists>m'. set_d m i v = Some m' \<and> length m' = length m"
      by (rule set_d_Some)
    show "\<And>m i. 8 * unat i + 8 \<le> length m \<Longrightarrow> \<exists>x. get_d m i = Some x" by (rule get_d_Some)
    show "8 * unat (?S i j) + 8 \<le> length (data a)" if "i < ?n" "j < ?c" for i j
      using position_lt[OF pi[OF that(1)] that(2)] uS[OF that] l8 by simp
    show "8 * unat (?D i j) + 8 \<le> length (replicate (8 * (?n * ?c)) (None :: cell))" if "i < ?n" "j < ?c" for i j
      using position_lt[OF that] uD[OF that] by simp
    show "i = i' \<and> j = j'" if "i < ?n" "j < ?c" "i' < ?n" "j' < ?c" "?D i j = ?D i' j'" for i j i' j'
    proof -
      have "i * ?c + j = i' * ?c + j'" using that uD[of i j] uD[of i' j'] by simp
      then show ?thesis using position_inj[of j ?c j' i i'] that by simp
    qed
  qed
  then obtain m where m: "for_loop ?n (\<lambda>i. for_loop ?c (\<lambda>j m. do { v \<leftarrow> get_d (data a) (?S i j); set_d m (?D i j) v }))
               (replicate (8 * (?n * ?c)) None) = Some m"
    and cells: "\<forall>i<?n. \<forall>j<?c. \<exists>x. get_d (data a) (?S i j) = Some x \<and> get_d m (?D i j) = Some x"
    by auto
  have copy: "for_loop ?n (\<lambda>i m. do {
                  d1' \<leftarrow> rd (dimensions a) 1;
                  for_loop (unat d1') (\<lambda>j m.
                    if dtype a = tag_d then do {
                      c \<leftarrow> rd indices i;
                      r \<leftarrow> c;
                      v \<leftarrow> get_d (data a) (r * d1' + of_nat j);
                      set_d m (of_nat i * d1' + of_nat j) v }
                    else if dtype a = tag_f then do {
                      c \<leftarrow> rd indices i;
                      r \<leftarrow> c;
                      v \<leftarrow> get_f (data a) (r * d1' + of_nat j);
                      set_f m (of_nat i * d1' + of_nat j) v }
                    else Some m) m }) (replicate (8 * (?n * ?c)) None) = Some m"
    unfolding m[symmetric]
  proof (rule for_loop_cong)
    fix i s assume i: "i < ?n"
    then have "rd indices i = Some (Some (of_nat (p ! i)))"
      using nr lp by (simp add: rd_def p(1))
    then show "(do {
                  d1' \<leftarrow> rd (dimensions a) 1;
                  for_loop (unat d1') (\<lambda>j m.
                    if dtype a = tag_d then do {
                      c \<leftarrow> rd indices i;
                      r \<leftarrow> c;
                      v \<leftarrow> get_d (data a) (r * d1' + of_nat j);
                      set_d m (of_nat i * d1' + of_nat j) v }
                    else if dtype a = tag_f then do {
                      c \<leftarrow> rd indices i;
                      r \<leftarrow> c;
                      v \<leftarrow> get_f (data a) (r * d1' + of_nat j);
                      set_f m (of_nat i * d1' + of_nat j) v }
                    else Some m) s })
            = for_loop ?c (\<lambda>j m. do { v \<leftarrow> get_d (data a) (?S i j); set_d m (?D i j) v }) s"
      using assms(3,4) by (simp add: rd_def)
  qed
  have r0: "rd (dimensions a) 0 = Some d0" using assms(4) by (simp add: rd_def)
  have notlt: "(d0 < n) = False" using assms(5) by simp
  have w0: "wr (replicate (unat (nd a)) None) 0 (Some n) = Some [Some n, None]"
    using assms(2) by (simp add: wr_def replicate_num)
  have th: "those [Some n, Some d1] = Some [n, d1]" by simp
  have cr': "ndarray_create [n, d1] (nd a) (dtype a) = Some (Ptr ?t0)"
    using cr assms(2,3) by simp
  have dt: "data ?t0 = replicate (8 * (?n * ?c)) None" by simp
  have "ndarray_subsample rnd a n = Some (Ptr (?t0\<lparr>data := m\<rparr>))"
    by (simp only: ndarray_subsample_def r0 notlt if_False w0 nd1 th cr' ptr.case cap fill sh dt copy
          Option.bind.simps)
  then show ?thesis using p(2,3) cells assms(3) by auto
qed


lemma ndarray_subsample_f:
  assumes "wf_array a" "nd a = 2" "dtype a = tag_f" "dimensions a = [d0, d1]" "n \<le> d0"
    "unat d0 * 8 < 2 ^ 64"
  shows "\<exists>r p. ndarray_subsample rnd a n = Some (Ptr r)
           \<and> dimensions r = [n, d1] \<and> nd r = 2 \<and> dtype r = dtype a
           \<and> distinct p \<and> set p = {..<unat d0}
           \<and> (\<forall>i<unat n. \<forall>j<unat d1. \<exists>x.
                 get_f (data a) (of_nat (p ! i) * d1 + of_nat j) = Some x
               \<and> get_f (data r) (of_nat i * d1 + of_nat j) = Some x)"
proof -
  let ?r = "unat d0" and ?c = "unat d1" and ?n = "unat n"
  have e: "calculate_type_size (dtype a) = 4" using assms(3) by (simp add: calculate_type_size_def)
  have l4: "length (data a) = 4 * (?r * ?c)" and lt: "length (data a) < 2 ^ 64"
    using assms(1,4) e by (simp_all add: wf_array_def)
  have nr: "?n \<le> ?r" using assms(5) by (simp add: word_le_nat_alt)
  have rc: "?r * ?c < 2 ^ 64" using l4 lt by simp
  have "?n * ?c \<le> ?r * ?c" using nr by (rule mult_le_mono1)
  then have "4 * (?n * ?c) \<le> 4 * (?r * ?c)" by (rule mult_le_mono2)
  then have nc4: "4 * (?n * ?c) < 2 ^ 64" using lt unfolding l4 by (rule le_less_trans)
  have "?n * ?c \<le> 4 * (?n * ?c)" by simp
  then have nc1: "?n * ?c < 2 ^ 64" using nc4 by (rule le_less_trans)
  note nc = nc1 nc4
  \<comment> \<open>the shape of the result\<close>
  have nd1: "for_loop (unat (nd a) - 1)
                (\<lambda>k ds. do { d \<leftarrow> rd (dimensions a) (Suc k); wr ds (Suc k) (Some d) }) [Some n, None]
              = Some [Some n, Some d1]"
    using assms(2,4) by (simp add: rd_def wr_def)
  let ?t0 = "\<lparr> data = replicate (4 * (?n * ?c)) None, dimensions = [n, d1],
              strides = map Some (row_major [n, d1] 4), nd = 2, dtype = tag_f \<rparr>"
  have sz: "unat (prod_list [n, d1] * (4 :: u64)) = 4 * (?n * ?c)"
    using nc unat_size_in_bytes[of 4 "[n, d1]"] by simp
  have cr: "ndarray_create [n, d1] 2 tag_f = Some (Ptr ?t0)"
    using ndarray_create_row_major[of 2 "[n, d1]" tag_f] sz
    by (simp add: calculate_type_size_def)
  \<comment> \<open>the block of row numbers\<close>
  have cap: "unat (d0 * 8) div 8 = ?r"
    using assms(6) by (simp add: unat_mult_lem[THEN iffD1])
  have fill: "for_loop ?r (\<lambda>i ind. wr ind i (Some (of_nat i :: u64))) (replicate ?r None)
               = Some (map (\<lambda>i. Some (of_nat i)) [0..<?r])"
    using fill_indices[of ?r ?r] by simp
  from shuffle_permutes[of d0 ?r ?r rnd] obtain indices p where
    sh: "for_loop ?r (\<lambda>i ind. do {
                 let j = unat (rnd i mod d0);
                 temp \<leftarrow> rd ind i;
                 x \<leftarrow> rd ind j;
                 ind' \<leftarrow> wr ind i x;
                 wr ind' j temp }) (map (\<lambda>i. Some (of_nat i :: u64)) [0..<?r]) = Some indices"
    and p: "indices = map (\<lambda>k. Some (of_nat k)) p" "distinct p" "set p = {..<?r}"
    by (auto simp add: row_numbers_def)
  have lp: "length p = ?r" using p(2,3) by (metis card_lessThan distinct_card)
  have pi: "p ! i < ?r" if "i < ?n" for i
  proof -
    have "p ! i \<in> set p" using that nr lp by (intro nth_mem) simp
    then show ?thesis using p(3) by simp
  qed
  \<comment> \<open>the copy loop\<close>
  let ?S = "\<lambda>i j. (of_nat (p ! i) * d1 + of_nat j :: u64)" and ?D = "\<lambda>i j. (of_nat i * d1 + of_nat j :: u64)"
  have uS: "unat (?S i j) = p ! i * ?c + j" if "i < ?n" "j < ?c" for i j
    using pi[OF that(1)] that(2) rc by (intro unat_position)
  have uD: "unat (?D i j) = i * ?c + j" if "i < ?n" "j < ?c" for i j
    using that nc(1) by (intro unat_position)
  have "\<exists>m. for_loop ?n (\<lambda>i. for_loop ?c (\<lambda>j m. do { v \<leftarrow> get_f (data a) (?S i j); set_f m (?D i j) v }))
               (replicate (4 * (?n * ?c)) None) = Some m
           \<and> length m = length (replicate (4 * (?n * ?c)) (None :: cell))
           \<and> (\<forall>i<?n. \<forall>j<?c. \<exists>x. get_f (data a) (?S i j) = Some x \<and> get_f m (?D i j) = Some x)"
  proof (rule scatter_loops[where fit = "\<lambda>n k. 4 * unat k + 4 \<le> n"])
    show "\<And>m i v m'. set_f m i v = Some m' \<Longrightarrow> get_f m' i = Some v" by (rule get_f_set_f_same)
    show "\<And>m i v m' j. set_f m i v = Some m' \<Longrightarrow> i \<noteq> j \<Longrightarrow> get_f m' j = get_f m j"
      by (rule get_f_set_f_other)
    show "\<And>m i v. 4 * unat i + 4 \<le> length m \<Longrightarrow> \<exists>m'. set_f m i v = Some m' \<and> length m' = length m"
      by (rule set_f_Some)
    show "\<And>m i. 4 * unat i + 4 \<le> length m \<Longrightarrow> \<exists>x. get_f m i = Some x" by (rule get_f_Some)
    show "4 * unat (?S i j) + 4 \<le> length (data a)" if "i < ?n" "j < ?c" for i j
      using position_lt[OF pi[OF that(1)] that(2)] uS[OF that] l4 by simp
    show "4 * unat (?D i j) + 4 \<le> length (replicate (4 * (?n * ?c)) (None :: cell))" if "i < ?n" "j < ?c" for i j
      using position_lt[OF that] uD[OF that] by simp
    show "i = i' \<and> j = j'" if "i < ?n" "j < ?c" "i' < ?n" "j' < ?c" "?D i j = ?D i' j'" for i j i' j'
    proof -
      have "i * ?c + j = i' * ?c + j'" using that uD[of i j] uD[of i' j'] by simp
      then show ?thesis using position_inj[of j ?c j' i i'] that by simp
    qed
  qed
  then obtain m where m: "for_loop ?n (\<lambda>i. for_loop ?c (\<lambda>j m. do { v \<leftarrow> get_f (data a) (?S i j); set_f m (?D i j) v }))
               (replicate (4 * (?n * ?c)) None) = Some m"
    and cells: "\<forall>i<?n. \<forall>j<?c. \<exists>x. get_f (data a) (?S i j) = Some x \<and> get_f m (?D i j) = Some x"
    by auto
  have copy: "for_loop ?n (\<lambda>i m. do {
                  d1' \<leftarrow> rd (dimensions a) 1;
                  for_loop (unat d1') (\<lambda>j m.
                    if dtype a = tag_d then do {
                      c \<leftarrow> rd indices i;
                      r \<leftarrow> c;
                      v \<leftarrow> get_d (data a) (r * d1' + of_nat j);
                      set_d m (of_nat i * d1' + of_nat j) v }
                    else if dtype a = tag_f then do {
                      c \<leftarrow> rd indices i;
                      r \<leftarrow> c;
                      v \<leftarrow> get_f (data a) (r * d1' + of_nat j);
                      set_f m (of_nat i * d1' + of_nat j) v }
                    else Some m) m }) (replicate (4 * (?n * ?c)) None) = Some m"
    unfolding m[symmetric]
  proof (rule for_loop_cong)
    fix i s assume i: "i < ?n"
    then have "rd indices i = Some (Some (of_nat (p ! i)))"
      using nr lp by (simp add: rd_def p(1))
    then show "(do {
                  d1' \<leftarrow> rd (dimensions a) 1;
                  for_loop (unat d1') (\<lambda>j m.
                    if dtype a = tag_d then do {
                      c \<leftarrow> rd indices i;
                      r \<leftarrow> c;
                      v \<leftarrow> get_d (data a) (r * d1' + of_nat j);
                      set_d m (of_nat i * d1' + of_nat j) v }
                    else if dtype a = tag_f then do {
                      c \<leftarrow> rd indices i;
                      r \<leftarrow> c;
                      v \<leftarrow> get_f (data a) (r * d1' + of_nat j);
                      set_f m (of_nat i * d1' + of_nat j) v }
                    else Some m) s })
            = for_loop ?c (\<lambda>j m. do { v \<leftarrow> get_f (data a) (?S i j); set_f m (?D i j) v }) s"
      using assms(3,4) by (simp add: rd_def)
  qed
  have r0: "rd (dimensions a) 0 = Some d0" using assms(4) by (simp add: rd_def)
  have notlt: "(d0 < n) = False" using assms(5) by simp
  have w0: "wr (replicate (unat (nd a)) None) 0 (Some n) = Some [Some n, None]"
    using assms(2) by (simp add: wr_def replicate_num)
  have th: "those [Some n, Some d1] = Some [n, d1]" by simp
  have cr': "ndarray_create [n, d1] (nd a) (dtype a) = Some (Ptr ?t0)"
    using cr assms(2,3) by simp
  have dt: "data ?t0 = replicate (4 * (?n * ?c)) None" by simp
  have "ndarray_subsample rnd a n = Some (Ptr (?t0\<lparr>data := m\<rparr>))"
    by (simp only: ndarray_subsample_def r0 notlt if_False w0 nd1 th cr' ptr.case cap fill sh dt copy
          Option.bind.simps)
  then show ?thesis using p(2,3) cells assms(3) by auto
qed

section \<open>What the operations check and what they keep\<close>

text \<open>
  The setters and the operations that write into a caller's output change the data block
  only; the rank, dtype and shape checks return \<open>NULL\<close>; an output that \<open>ndarray_dot\<close> or
  \<open>ndarray_broadcast_add\<close> allocates has the extents of the first operand.
\<close>

lemma same_layout_data [simp]: "same_layout (a\<lparr>data := m\<rparr>) a"
  by (simp add: same_layout_def)

lemma setters_keep_layout:
  "ndarray_set_point_d a idx v = Some (rc, a') \<Longrightarrow> same_layout a' a"
  "ndarray_set_point_f a idx w = Some (rc, a') \<Longrightarrow> same_layout a' a"
  "ndarray_set_point_u64 a idx v = Some (rc, a') \<Longrightarrow> same_layout a' a"
  "ndarray_set_point_u32 a idx w = Some (rc, a') \<Longrightarrow> same_layout a' a"
  "ndarray_set_point a idx bs = Some (rc, a') \<Longrightarrow> same_layout a' a"
  by (auto simp add: ndarray_set_point_d_def ndarray_set_point_f_def ndarray_set_point_u64_def
      ndarray_set_point_u32_def ndarray_set_point_def split: bind_splits)

lemma output_keeps_layout:
  "ndarray_add fp (Ptr out) a b = Some (Ptr r) \<Longrightarrow> same_layout r out"
  "ndarray_subtract fp (Ptr out) a b = Some (Ptr r) \<Longrightarrow> same_layout r out"
  "ndarray_dot fp (Ptr out) a b = Some (Ptr r) \<Longrightarrow> same_layout r out"
  "ndarray_broadcast_add fp (Ptr out) a b = Some (Ptr r) \<Longrightarrow> same_layout r out"
  "ndarray_compare fp (Ptr out) a b op = Some (Ptr r) \<Longrightarrow> same_layout r out"
  by (auto simp add: ndarray_add_def ndarray_subtract_def ndarray_dot_def ndarray_broadcast_add_def
      ndarray_compare_def result_or_create_def Let_def split: bind_splits if_splits option.splits)

lemma dot_rejects:
  assumes "nd a \<noteq> 2 \<or> nd b \<noteq> 2 \<or> dtype a \<noteq> dtype b
           \<or> (\<exists>x y. rd (dimensions a) 1 = Some x \<and> rd (dimensions b) 0 = Some y \<and> x \<noteq> y)"
  shows "ndarray_dot fp result a b = Some NULL"
  using assms by (auto simp add: ndarray_dot_def)

lemma transpose_rejects: "nd a \<noteq> 2 \<Longrightarrow> ndarray_transpose a = Some NULL"
  by (simp add: ndarray_transpose_def)

lemma subsample_rejects:
  "rd (dimensions a) 0 = Some d0 \<Longrightarrow> d0 < n \<Longrightarrow> ndarray_subsample rnd a n = Some NULL"
  by (simp add: ndarray_subsample_def)

lemma concat_rejects:
  "nd a \<noteq> nd b \<or> nd a \<le> axis \<or> dtype a \<noteq> dtype b \<Longrightarrow> ndarray_concat (Ptr a) (Ptr b) axis = Some NULL"
  by (auto simp add: ndarray_concat_def)


lemma ndarray_create_dimensions:
  "ndarray_create dims n dt = Some (Ptr r) \<Longrightarrow> dimensions r = take (unat n) dims \<and> nd r = n \<and> dtype r = dt"
  by (auto simp add: ndarray_create_def split: bind_splits if_splits)

lemma fresh_output_has_shape_of_a:
  "ndarray_dot fp NULL a b = Some (Ptr r) \<Longrightarrow> dimensions r = take 2 (dimensions a)"
  "ndarray_broadcast_add fp NULL a b = Some (Ptr r) \<Longrightarrow> dimensions r = take 2 (dimensions a)"
  by (auto simp add: ndarray_dot_def ndarray_broadcast_add_def result_or_create_def Let_def
      dest!: ndarray_create_dimensions split: bind_splits if_splits ptr.splits)

text \<open>
  The concatenation of two 2 x 3 arrays of \<open>double\<close>s along axis 0: from the linear index 8
  on, the source index that the byte strides give is 8, outside the six cells of the source.
\<close>

lemma concat_of_two_grids_reads_outside:
  "ndarray_concat (Ptr grid_23) (Ptr grid_23) 0 = None"
  by (simp add: ndarray_concat_def concat_step_def grid_23_def run_simps)

section \<open>Loops that write one cell a round, and the operations on two matrices\<close>

text \<open>
  A loop whose round \<open>j\<close> stores the value \<open>W j\<close> in cell \<open>D j\<close> of a typed view, and two such
  loops nested; a loop that folds a value; a loop whose state is the block or the mark of
  the \<open>default\<close> branch.
\<close>

lemma write_loop:
  fixes g :: "mem \<Rightarrow> u64 \<Rightarrow> 'v option" and s :: "mem \<Rightarrow> u64 \<Rightarrow> 'v \<Rightarrow> mem option"
    and fit :: "nat \<Rightarrow> u64 \<Rightarrow> bool"
  assumes same: "\<And>m i v m'. s m i v = Some m' \<Longrightarrow> g m' i = Some v"
    and other: "\<And>m i v m' j. s m i v = Some m' \<Longrightarrow> i \<noteq> j \<Longrightarrow> g m' j = g m j"
    and totals: "\<And>m i v. fit (length m) i \<Longrightarrow> \<exists>m'. s m i v = Some m' \<and> length m' = length m"
    and body: "\<And>j m. j < c \<Longrightarrow> body j m = s m (D j) (W j)"
    and dst: "\<And>j. j < c \<Longrightarrow> fit (length m0) (D j)"
    and inj: "inj_on D {..<c}"
  shows "\<exists>m. for_loop c body m0 = Some m
           \<and> length m = length m0
           \<and> (\<forall>j<c. g m (D j) = Some (W j))
           \<and> (\<forall>k. k \<notin> D ` {..<c} \<longrightarrow> g m k = g m0 k)"
proof -
  let ?P = "\<lambda>n m. length m = length m0
           \<and> (\<forall>j<n. g m (D j) = Some (W j))
           \<and> (\<forall>k. k \<notin> D ` {..<n} \<longrightarrow> g m k = g m0 k)"
  have "\<exists>m. for_loop c body m0 = Some m \<and> ?P c m"
  proof (rule for_loop_inv[where P = ?P])
    show "?P 0 m0" by simp
  next
    fix n t
    assume n: "n < c" and inv: "?P n t"
    have "fit (length t) (D n)" using dst[OF n] inv by simp
    then obtain t' where t': "s t (D n) (W n) = Some t'" "length t' = length t"
      using totals by blast
    have new: "g t' (D n) = Some (W n)" using t'(1) by (rule same)
    have old: "g t' k = g t k" if "k \<noteq> D n" for k
      using other[OF t'(1), of k] that by auto
    have a: "g t' (D j) = Some (W j)" if "j < Suc n" for j
    proof (cases "j = n")
      case True
      then show ?thesis using new by simp
    next
      case False
      then have jn: "j < n" using that by simp
      then have "D j \<noteq> D n" using inj n by (auto simp add: inj_on_def)
      then show ?thesis using inv jn old by simp
    qed
    have b: "g t' k = g m0 k" if "k \<notin> D ` {..<Suc n}" for k
    proof -
      have "k \<noteq> D n" "k \<notin> D ` {..<n}" using that by (auto simp add: lessThan_Suc)
      then show ?thesis using inv old by simp
    qed
    show "\<exists>t'. body n t = Some t' \<and> ?P (Suc n) t'"
      using body[OF n, of t] t' inv a b by auto
  qed
  then show ?thesis by blast
qed

lemma write_loops:
  fixes g :: "mem \<Rightarrow> u64 \<Rightarrow> 'v option" and s :: "mem \<Rightarrow> u64 \<Rightarrow> 'v \<Rightarrow> mem option"
    and fit :: "nat \<Rightarrow> u64 \<Rightarrow> bool"
  assumes same: "\<And>m i v m'. s m i v = Some m' \<Longrightarrow> g m' i = Some v"
    and other: "\<And>m i v m' j. s m i v = Some m' \<Longrightarrow> i \<noteq> j \<Longrightarrow> g m' j = g m j"
    and totals: "\<And>m i v. fit (length m) i \<Longrightarrow> \<exists>m'. s m i v = Some m' \<and> length m' = length m"
    and outer: "\<And>i m. i < r \<Longrightarrow> outer i m = for_loop c (inner i) m"
    and inner: "\<And>i j m. i < r \<Longrightarrow> j < c \<Longrightarrow> inner i j m = s m (D i j) (W i j)"
    and dst: "\<And>i j. i < r \<Longrightarrow> j < c \<Longrightarrow> fit (length m0) (D i j)"
    and inj: "\<And>i j i' j'. i < r \<Longrightarrow> j < c \<Longrightarrow> i' < r \<Longrightarrow> j' < c \<Longrightarrow> D i j = D i' j' \<Longrightarrow> i = i' \<and> j = j'"
  shows "\<exists>m. for_loop r outer m0 = Some m
           \<and> length m = length m0
           \<and> (\<forall>i<r. \<forall>j<c. g m (D i j) = Some (W i j))"
proof -
  let ?P = "\<lambda>n m. length m = length m0 \<and> (\<forall>i<n. \<forall>j<c. g m (D i j) = Some (W i j))"
  have "\<exists>m. for_loop r outer m0 = Some m \<and> ?P r m"
  proof (rule for_loop_inv[where P = ?P])
    show "?P 0 m0" by simp
  next
    fix n t
    assume n: "n < r" and inv: "?P n t"
    have "\<exists>m. for_loop c (inner n) t = Some m
           \<and> length m = length t
           \<and> (\<forall>j<c. g m (D n j) = Some (W n j))
           \<and> (\<forall>k. k \<notin> D n ` {..<c} \<longrightarrow> g m k = g t k)"
    proof (rule write_loop[where fit = fit, OF same other totals])
      show "\<And>j m. j < c \<Longrightarrow> inner n j m = s m (D n j) (W n j)" using inner n by simp
      show "\<And>j. j < c \<Longrightarrow> fit (length t) (D n j)" using dst n inv by simp
      show "inj_on (D n) {..<c}" using inj n by (auto simp add: inj_on_def)
    qed
    then obtain t' where t': "for_loop c (inner n) t = Some t'"
      "length t' = length t" "\<And>j. j < c \<Longrightarrow> g t' (D n j) = Some (W n j)"
      "\<And>k. k \<notin> D n ` {..<c} \<Longrightarrow> g t' k = g t k"
      by blast
    have "g t' (D i j) = Some (W i j)" if "i < Suc n" "j < c" for i j
    proof (cases "i = n")
      case True
      then show ?thesis using t'(3) that by simp
    next
      case False
      then have i: "i < n" using that by simp
      have "D i j \<notin> D n ` {..<c}"
      proof
        assume "D i j \<in> D n ` {..<c}"
        then obtain j' where "j' < c" "D i j = D n j'" by auto
        then have "i = n" using inj[of i j n j'] i n that by simp
        then show False using False by simp
      qed
      then have "g t' (D i j) = g t (D i j)" by (rule t'(4))
      then show ?thesis using inv i that by simp
    qed
    then show "\<exists>t'. outer n t = Some t' \<and> ?P (Suc n) t'"
      using t'(1,2) inv outer[OF n, of t] by simp
  qed
  then show ?thesis by blast
qed

lemma fold_loop:
  assumes "\<And>k s. k < n \<Longrightarrow> body k s = Some (f s k)"
  shows "for_loop n body s0 = Some (foldl f s0 [0..<n])"
  using assms by (induction n) simp_all

lemma for_loop_Some_state:
  assumes "\<And>i m. i < n \<Longrightarrow> body i (Some m) = map_option Some (body' i m)"
  shows "for_loop n body (Some m0) = map_option Some (for_loop n body' m0)"
  using assms
proof (induction n)
  case 0
  then show ?case by simp
next
  case (Suc n)
  then have ih: "for_loop n body (Some m0) = map_option Some (for_loop n body' m0)" by simp
  show ?case
  proof (cases "for_loop n body' m0")
    case None
    then show ?thesis using ih by simp
  next
    case (Some m)
    then show ?thesis using ih Suc.prems[of n m] by simp
  qed
qed

text \<open>No operation returns \<open>NULL\<close> once its rank, dtype and shape checks have passed.\<close>

lemma ndarray_create_not_NULL: "ndarray_create dims n dt \<noteq> Some NULL"
  by (auto simp add: ndarray_create_def split: bind_splits if_splits)

lemma arithmetic_not_NULL:
  assumes "nd b = nd a" "dtype b = dtype a" "dimensions b = dimensions a"
    "unat (nd a) \<le> length (dimensions a)"
  shows "ndarray_add fp result a b \<noteq> Some NULL"
    and "ndarray_subtract fp result a b \<noteq> Some NULL"
proof -
  have sd: "shape_differs a b = Some False"
    using assms by (intro shape_differs_same) simp_all
  have "\<exists>res. p = Ptr res" if "result_or_create result a = Some p" for p
    using that ndarray_create_not_NULL[of "dimensions a" "nd a" "dtype a"]
    by (cases p; cases result) (auto simp add: result_or_create_def)
  then show "ndarray_add fp result a b \<noteq> Some NULL" "ndarray_subtract fp result a b \<noteq> Some NULL"
    using assms(1,2)
    by (auto simp add: ndarray_add_def ndarray_subtract_def sd split: bind_splits ptr.splits)
qed

lemma dot_not_NULL:
  assumes "nd a = 2" "nd b = 2" "dtype b = dtype a" "dimensions a ! 1 = dimensions b ! 0"
  shows "ndarray_dot fp result a b \<noteq> Some NULL"
proof -
  have "\<exists>res. p = Ptr res" if "result_or_create result a = Some p" for p
    using that ndarray_create_not_NULL[of "dimensions a" "nd a" "dtype a"]
    by (cases p; cases result) (auto simp add: result_or_create_def)
  then show ?thesis
    using assms
    by (auto simp add: ndarray_dot_def rd_def split: bind_splits ptr.splits if_splits)
qed

lemma broadcast_add_not_NULL:
  assumes "nd a = 2" "nd b = 2" "dtype b = dtype a"
  shows "ndarray_broadcast_add fp result a b \<noteq> Some NULL"
proof (cases result)
  case NULL
  then show ?thesis
    using assms ndarray_create_not_NULL[of "dimensions a" "nd a" "dtype a"]
    by (auto simp add: ndarray_broadcast_add_def result_or_create_def Let_def
        split: bind_splits ptr.splits)
next
  case (Ptr out)
  then show ?thesis
    using assms
    by (auto simp add: ndarray_broadcast_add_def result_or_create_def Let_def
        split: bind_splits ptr.splits)
qed

lemma compare_loop_state:
  assumes "valid_op op"
  shows "for_loop n (\<lambda>i st.
                     case st of None \<Rightarrow> Some None
                     | Some m \<Rightarrow> do {
                         val_a \<leftarrow> operand_at fp a (of_nat i);
                         val_b \<leftarrow> operand_at fp b (of_nat i);
                         if op = op_gt
                           then map_option Some (set_f m (of_nat i) (lift2 (\<lambda>x y. truth (d_gt fp x y)) val_a val_b))
                         else if op = op_lt
                           then map_option Some (set_f m (of_nat i) (lift2 (\<lambda>x y. truth (d_lt fp x y)) val_a val_b))
                         else if op = op_eq
                           then map_option Some (set_f m (of_nat i) (lift2 (\<lambda>x y. truth (d_eq fp x y)) val_a val_b))
                         else Some None }) (Some m0) \<noteq> Some None"
proof (induction n)
  case 0
  then show ?case by simp
next
  case (Suc n)
  then show ?case using assms
    by (auto simp add: valid_op_def split: bind_splits option.splits)
qed

lemma compare_not_NULL:
  assumes "nd b = nd a" "dtype b = dtype a" "dimensions b = dimensions a"
    "unat (nd a) \<le> length (dimensions a)" "valid_op op"
  shows "ndarray_compare fp result a b op \<noteq> Some NULL"
proof -
  have sd: "shape_differs a b = Some False"
    using assms by (intro shape_differs_same) simp_all
  show ?thesis
  proof (cases "result_or_create result a")
    case None
    then show ?thesis using assms(1,2) by (simp add: ndarray_compare_def sd)
  next
    case (Some p)
    then obtain res where p: "p = Ptr res"
      using ndarray_create_not_NULL[of "dimensions a" "nd a" "dtype a"]
      by (cases p; cases result) (auto simp add: result_or_create_def)
    show ?thesis
      using assms(1,2) compare_loop_state[OF assms(5), of _ fp a b "data res"]
      by (auto simp add: ndarray_compare_def sd Some p split: bind_splits option.splits)
  qed
qed

lemma concat_not_NULL:
  assumes "nd b = nd a" "axis < nd a" "dtype b = dtype a"
    "length (dimensions a) = unat (nd a)" "length (dimensions b) = unat (nd a)"
    "\<And>i. i < unat (nd a) \<Longrightarrow> i \<noteq> unat axis \<Longrightarrow> dimensions b ! i = dimensions a ! i"
  shows "ndarray_concat (Ptr a) (Ptr b) axis \<noteq> Some NULL"
proof -
  have "k \<le> unat (nd a) \<Longrightarrow>
        for_loop k (\<lambda>i found.
               if found then Some True
               else if i \<noteq> unat axis
                 then do { x \<leftarrow> rd (dimensions a) i; y \<leftarrow> rd (dimensions b) i; Some (x \<noteq> y) }
               else Some False) False = Some False" for k
    using assms(4,5,6) by (induction k) (simp_all add: rd_def)
  then have df: "for_loop (unat (nd a)) (\<lambda>i found.
               if found then Some True
               else if i \<noteq> unat axis
                 then do { x \<leftarrow> rd (dimensions a) i; y \<leftarrow> rd (dimensions b) i; Some (x \<noteq> y) }
               else Some False) False = Some False" by simp
  have na: "\<not> nd a \<le> axis" using assms(2) by simp
  show ?thesis
    using assms(1,3) na ndarray_create_not_NULL
    by (auto simp add: ndarray_concat_def df Let_def split: bind_splits ptr.splits prod.splits)
qed

text \<open>
  \<open>ndarray_compare\<close> on two matrices of dtype \<open>'d'\<close> or \<open>'f'\<close>: every \<open>int\<close> cell of the fresh
  output holds the truth value.
\<close>

lemma operand_at_Some:
  assumes "dtype a = tag_d \<or> dtype a = tag_f"
    and "unat (calculate_type_size (dtype a)) * (unat i + 1) \<le> length (data a)"
  shows "\<exists>x. operand_at fp a i = Some x"
proof (cases "dtype a = tag_d")
  case True
  then have "8 * unat i + 8 \<le> length (data a)" using assms(2) by (simp add: calculate_type_size_def)
  then show ?thesis using True get_d_Some[of i "data a"] by (simp add: operand_at_def)
next
  case False
  then have f: "dtype a = tag_f" using assms(1) by simp
  then have "4 * unat i + 4 \<le> length (data a)" using assms(2) by (simp add: calculate_type_size_def)
  then obtain y where "get_f (data a) i = Some y" using get_f_Some[of i "data a"] by blast
  then show ?thesis using f by (simp add: operand_at_def)
qed

lemma ndarray_compare_df:
  assumes "wf_array a" "wf_array b" "nd a = 2" "nd b = 2" "dtype b = dtype a"
    "dimensions b = dimensions a" "dtype a = tag_d \<or> dtype a = tag_f" "valid_op op"
  shows "\<exists>r. ndarray_compare fp NULL a b op = Some (Ptr r) \<and> r\<lparr>data := data a\<rparr> = a
           \<and> length (data r) = length (data a) \<and> compared fp op a b r"
proof -
  from assms(1,2,3,4,5,6) obtain d0 d1 where ds: "dimensions a = [d0, d1]"
    and len: "length (data a) = unat (calculate_type_size (dtype a)) * (unat d0 * unat d1)"
    and lenb: "length (data b) = length (data a)"
    and sd: "shape_differs a b = Some False"
    and cr: "result_or_create NULL a = Some (Ptr (a\<lparr>data := replicate (length (data a)) None\<rparr>))"
    and nz: "calculate_type_size (dtype a) \<noteq> 0 \<Longrightarrow> unat (d0 * d1) = unat d0 * unat d1"
    by (elim rank2_operands[of a b]) simp_all
  let ?N = "unat d0 * unat d1" and ?e = "calculate_type_size (dtype a)"
  have e: "?e = 8 \<or> ?e = 4" using assms(7) by (auto simp add: calculate_type_size_def)
  then have bound: "unat (d0 * d1) = ?N" using nz by auto
  have lt: "length (data a) < 2 ^ 64" using assms(1) by (simp add: wf_array_def)
  have four: "4 * ?N \<le> length (data a)" using e len by auto
  have N: "?N < 2 ^ 64" using four lt by simp
  have ui: "unat (of_nat i :: u64) = i" if "i < ?N" for i
    using that N by (intro unat_of_nat_64) simp
  have fit: "unat ?e * (unat (of_nat i :: u64) + 1) \<le> length (data a)" if "i < ?N" for i
  proof -
    have "Suc i \<le> ?N" using that by simp
    then have "unat ?e * Suc i \<le> unat ?e * ?N" by (rule mult_le_mono2)
    then show ?thesis using ui[OF that] len by simp
  qed
  have ra: "\<exists>x. operand_at fp a (of_nat i) = Some x" if "i < ?N" for i
    using assms(7) fit[OF that] by (rule operand_at_Some)
  have rb: "\<exists>y. operand_at fp b (of_nat i) = Some y" if "i < ?N" for i
    using assms(5,7) fit[OF that] lenb by (intro operand_at_Some) simp_all
  let ?W = "\<lambda>i. lift2 (\<lambda>x y. truth (comparison fp op x y))
                  (the (operand_at fp a (of_nat i))) (the (operand_at fp b (of_nat i)))"
  let ?body = "\<lambda>i st.
                     case st of None \<Rightarrow> Some None
                     | Some m \<Rightarrow> do {
                         val_a \<leftarrow> operand_at fp a (of_nat i);
                         val_b \<leftarrow> operand_at fp b (of_nat i);
                         if op = op_gt
                           then map_option Some (set_f m (of_nat i) (lift2 (\<lambda>x y. truth (d_gt fp x y)) val_a val_b))
                         else if op = op_lt
                           then map_option Some (set_f m (of_nat i) (lift2 (\<lambda>x y. truth (d_lt fp x y)) val_a val_b))
                         else if op = op_eq
                           then map_option Some (set_f m (of_nat i) (lift2 (\<lambda>x y. truth (d_eq fp x y)) val_a val_b))
                         else Some None }"
  let ?m0 = "replicate (length (data a)) (None :: cell)"
  have step: "?body i (Some m) = map_option Some (set_f m (of_nat i) (?W i))" if "i < ?N" for i m
  proof -
    from ra[OF that] rb[OF that] obtain x y where
      "operand_at fp a (of_nat i) = Some x" "operand_at fp b (of_nat i) = Some y" by blast
    then show ?thesis using assms(8) by (auto simp add: valid_op_def comparison_def)
  qed
  have state: "for_loop ?N ?body (Some ?m0)
                 = map_option Some (for_loop ?N (\<lambda>i m. set_f m (of_nat i) (?W i)) ?m0)"
    by (rule for_loop_Some_state) (rule step)
  have "\<exists>m. for_loop ?N (\<lambda>i m. set_f m (of_nat i) (?W i)) ?m0 = Some m
           \<and> length m = length ?m0
           \<and> (\<forall>j<?N. get_f m (of_nat j) = Some (?W j))
           \<and> (\<forall>k. k \<notin> of_nat ` {..<?N} \<longrightarrow> get_f m k = get_f ?m0 k)"
  proof (rule write_loop[where fit = "\<lambda>n k. 4 * unat k + 4 \<le> n",
        OF get_f_set_f_same get_f_set_f_other set_f_Some])
    show "\<And>j m. j < ?N \<Longrightarrow> set_f m (of_nat j) (?W j) = set_f m (of_nat j) (?W j)" by simp
    show "4 * unat (of_nat j :: u64) + 4 \<le> length ?m0" if "j < ?N" for j
      using ui[OF that] that four by simp
    show "inj_on (of_nat :: nat \<Rightarrow> u64) {..<?N}"
      by (rule inj_onI) (metis lessThan_iff ui)
  qed
  then obtain m where m: "for_loop ?N (\<lambda>i m. set_f m (of_nat i) (?W i)) ?m0 = Some m"
    and lm: "length m = length (data a)"
    and cells: "\<And>j. j < ?N \<Longrightarrow> get_f m (of_nat j) = Some (?W j)"
    by auto
  have loop: "for_loop (unat (d0 * d1)) ?body (Some (replicate (length (data a)) None)) = Some (Some m)"
    using state m bound by simp
  have chk: "(nd a \<noteq> nd b \<or> dtype a \<noteq> dtype b) = False" by (simp add: assms(3,4,5))
  have r0: "rd (dimensions a) 0 = Some d0" and r1: "rd (dimensions a) 1 = Some d1"
    by (simp_all add: ds rd_def)
  have dt: "data (a\<lparr>data := replicate (length (data a)) None\<rparr>) = replicate (length (data a)) None"
    by simp
  have res: "ndarray_compare fp NULL a b op = Some (Ptr (a\<lparr>data := m\<rparr>))"
    using assms(3,4,5) by (simp add: ndarray_compare_def sd cr r0 r1 loop del: One_nat_def)
  have "compared fp op a b (a\<lparr>data := m\<rparr>)"
    unfolding compared_def
  proof (intro allI impI)
    fix i assume "i < prod_list (map unat (dimensions a))"
    then have i: "i < ?N" by (simp add: ds)
    from ra[OF i] rb[OF i] obtain x y where
      xy: "operand_at fp a (of_nat i) = Some x" "operand_at fp b (of_nat i) = Some y" by blast
    then show "\<exists>x y. operand_at fp a (of_nat i) = Some x \<and> operand_at fp b (of_nat i) = Some y
             \<and> get_f (data (a\<lparr>data := m\<rparr>)) (of_nat i) = Some (lift2 (\<lambda>x y. truth (comparison fp op x y)) x y)"
      using cells[OF i] by simp
  qed
  then show ?thesis using res lm by simp
qed

text \<open>
  \<open>ndarray_dot\<close> on matrices of dtype \<open>'d'\<close> or \<open>'f'\<close> where \<open>B\<close> has no more columns than \<open>A\<close>, so
  that the fresh output has room: cell \<open>i * n + j\<close> holds the sum of products.
\<close>

lemma cell_d_read:
  "8 * unat (of_nat i * (dimensions a ! 1) + of_nat j :: u64) + 8 \<le> length (data a) \<Longrightarrow>
   get_d (data a) (of_nat i * (dimensions a ! 1) + of_nat j) = Some (cell_d a i j)"
  using get_d_Some[of "of_nat i * (dimensions a ! 1) + of_nat j" "data a"]
  by (auto simp add: cell_d_def)

lemma cell_f_read:
  "4 * unat (of_nat i * (dimensions a ! 1) + of_nat j :: u64) + 4 \<le> length (data a) \<Longrightarrow>
   get_f (data a) (of_nat i * (dimensions a ! 1) + of_nat j) = Some (cell_f a i j)"
  using get_f_Some[of "of_nat i * (dimensions a ! 1) + of_nat j" "data a"]
  by (auto simp add: cell_f_def)

text \<open>The positions of a matrix of well-formed rank 2, as byte ranges of its block.\<close>

lemma rank2_positions:
  assumes "wf_array a" "nd a = 2" "calculate_type_size (dtype a) \<noteq> 0"
  obtains d0 d1 where "dimensions a = [d0, d1]"
    and "length (data a) = unat (calculate_type_size (dtype a)) * (unat d0 * unat d1)"
    and "unat d0 * unat d1 < 2 ^ 64"
    and "\<And>i j. i < unat d0 \<Longrightarrow> j < unat d1 \<Longrightarrow> unat (of_nat i * d1 + of_nat j :: u64) = i * unat d1 + j"
    and "\<And>i j. i < unat d0 \<Longrightarrow> j < unat d1 \<Longrightarrow>
           unat (calculate_type_size (dtype a)) * unat (of_nat i * d1 + of_nat j :: u64)
             + unat (calculate_type_size (dtype a)) \<le> length (data a)"
proof -
  let ?e = "unat (calculate_type_size (dtype a))"
  from assms(1,2) obtain d0 d1 where ds: "dimensions a = [d0, d1]"
    and len: "length (data a) = ?e * (unat d0 * unat d1)"
    and lt: "length (data a) < 2 ^ 64"
    by (rule rank2_shape)
  have "1 \<le> ?e" using assms(3) by (simp add: unat_gt_0 Suc_le_eq)
  then have "1 * (unat d0 * unat d1) \<le> ?e * (unat d0 * unat d1)" by (rule mult_le_mono1)
  then have "unat d0 * unat d1 \<le> length (data a)" by (simp only: len mult_1)
  then have N: "unat d0 * unat d1 < 2 ^ 64" using lt by (rule le_less_trans)
  have u: "unat (of_nat i * d1 + of_nat j :: u64) = i * unat d1 + j" if "i < unat d0" "j < unat d1" for i j
    using that N by (intro unat_position)
  have f: "?e * unat (of_nat i * d1 + of_nat j :: u64) + ?e \<le> length (data a)"
    if "i < unat d0" "j < unat d1" for i j
  proof -
    have "Suc (i * unat d1 + j) \<le> unat d0 * unat d1" using position_lt[OF that] by simp
    then have "?e * Suc (i * unat d1 + j) \<le> ?e * (unat d0 * unat d1)" by (rule mult_le_mono2)
    then show ?thesis using u[OF that] len by simp
  qed
  show thesis using ds len N u f by (rule that)
qed

lemma ndarray_dot_d:
  assumes "wf_array a" "wf_array b" "nd a = 2" "nd b = 2" "dtype b = dtype a" "dtype a = tag_d"
    "dimensions a ! 1 = dimensions b ! 0" "dimensions b ! 1 \<le> dimensions a ! 1"
  shows "\<exists>r. ndarray_dot fp NULL a b = Some (Ptr r) \<and> r\<lparr>data := data a\<rparr> = a
           \<and> length (data r) = length (data a) \<and> matrix_product fp a b r"
proof -
  have e: "calculate_type_size (dtype a) = 8" "calculate_type_size (dtype b) = 8"
    using assms(5,6) by (simp_all add: calculate_type_size_def)
  from assms(1,3) e(1) obtain a0 a1 where dsa: "dimensions a = [a0, a1]"
    and lena: "length (data a) = unat (calculate_type_size (dtype a)) * (unat a0 * unat a1)"
    and Na: "unat a0 * unat a1 < 2 ^ 64"
    and ua: "\<And>i j. i < unat a0 \<Longrightarrow> j < unat a1 \<Longrightarrow> unat (of_nat i * a1 + of_nat j :: u64) = i * unat a1 + j"
    and fa: "\<And>i j. i < unat a0 \<Longrightarrow> j < unat a1 \<Longrightarrow>
           unat (calculate_type_size (dtype a)) * unat (of_nat i * a1 + of_nat j :: u64)
             + unat (calculate_type_size (dtype a)) \<le> length (data a)"
    by (elim rank2_positions[of a]) simp_all
  from assms(2,4) e(2) obtain b0 b1 where dsb: "dimensions b = [b0, b1]"
    and fb: "\<And>i j. i < unat b0 \<Longrightarrow> j < unat b1 \<Longrightarrow>
           unat (calculate_type_size (dtype b)) * unat (of_nat i * b1 + of_nat j :: u64)
             + unat (calculate_type_size (dtype b)) \<le> length (data b)"
    by (elim rank2_positions[of b]) simp_all
  have b0: "b0 = a1" using assms(7) by (simp add: dsa dsb)
  have le: "unat b1 \<le> unat a1" using assms(8) by (simp add: dsa dsb word_le_nat_alt)
  have Nd: "unat a0 * unat b1 < 2 ^ 64"
  proof -
    have "unat a0 * unat b1 \<le> unat a0 * unat a1" using le by (rule mult_le_mono2)
    then show ?thesis using Na by (rule le_less_trans)
  qed
  let ?D = "\<lambda>i j. (of_nat i * b1 + of_nat j :: u64)"
  have uD: "unat (?D i j) = i * unat b1 + j" if "i < unat a0" "j < unat b1" for i j
    using that Nd by (intro unat_position)
  have ra: "get_d (data a) (of_nat i * a1 + of_nat k) = Some (cell_d a i k)"
    if "i < unat a0" "k < unat a1" for i k
    using cell_d_read[of i a k] fa[OF that] by (simp add: dsa e)
  have rb: "get_d (data b) (of_nat k * b1 + of_nat j) = Some (cell_d b k j)"
    if "k < unat a1" "j < unat b1" for k j
    using cell_d_read[of k b j] fb[of k j] that by (simp add: dsb e b0)
  let ?sum = "\<lambda>b1 i j. for_loop (unat a1) (\<lambda>k sum.
                     if dtype a = tag_d then do {
                       x \<leftarrow> get_d (data a) (of_nat i * a1 + of_nat k);
                       y \<leftarrow> get_d (data b) (of_nat k * b1 + of_nat j);
                       Some (lift2 (d_add fp) sum (lift2 (d_mul fp) x y)) }
                     else if dtype a = tag_f then do {
                       x \<leftarrow> get_f (data a) (of_nat i * a1 + of_nat k);
                       y \<leftarrow> get_f (data b) (of_nat k * b1 + of_nat j);
                       Some (lift2 (d_add fp) sum (map_option (f2d fp) (lift2 (f_mul fp) x y))) }
                     else Some sum) (Some 0)"
  let ?inner = "\<lambda>b1 i j m. do {
                  sum \<leftarrow> ?sum b1 i j;
                  if dtype a = tag_d then set_d m (of_nat i * b1 + of_nat j) sum
                  else if dtype a = tag_f then set_f m (of_nat i * b1 + of_nat j) (map_option (d2f fp) sum)
                  else Some m }"
  let ?outer = "\<lambda>i m. do {
                b1 \<leftarrow> rd (dimensions b) 1;
                for_loop (unat b1) (?inner b1 i) m }"
  let ?m0 = "replicate (length (data a)) (None :: cell)"
  have sum: "?sum b1 i j = Some (sum_of_products fp a b i j)" if "i < unat a0" "j < unat b1" for i j
    unfolding sum_of_products_def
    by (simp add: dsa, rule fold_loop) (simp add: assms(6) ra rb that)
  have "\<exists>m. for_loop (unat a0) ?outer ?m0 = Some m
           \<and> length m = length ?m0
           \<and> (\<forall>i<unat a0. \<forall>j<unat b1. get_d m (?D i j) = Some (sum_of_products fp a b i j))"
  proof (rule write_loops[where fit = "\<lambda>n k. 8 * unat k + 8 \<le> n" and inner = "?inner b1",
        OF get_d_set_d_same get_d_set_d_other set_d_Some])
    show "?outer i m = for_loop (unat b1) (?inner b1 i) m" for i m
      by (simp add: dsb rd_def)
    show "?inner b1 i j m = set_d m (?D i j) (sum_of_products fp a b i j)"
      if "i < unat a0" "j < unat b1" for i j m
      by (simp only: sum[OF that] Option.bind.simps) (simp add: assms(6))
    show "8 * unat (?D i j) + 8 \<le> length ?m0" if "i < unat a0" "j < unat b1" for i j
    proof -
      have "i * unat b1 + j < unat a0 * unat b1" using that by (rule position_lt)
      also have "\<dots> \<le> unat a0 * unat a1" using le by (rule mult_le_mono2)
      finally show ?thesis using uD[OF that] lena e by simp
    qed
    show "i = i' \<and> j = j'"
      if "i < unat a0" "j < unat b1" "i' < unat a0" "j' < unat b1" "?D i j = ?D i' j'" for i j i' j'
    proof -
      have "i * unat b1 + j = i' * unat b1 + j'" using that uD[of i j] uD[of i' j'] by simp
      then show ?thesis using position_inj[of j "unat b1" j' i i'] that by simp
    qed
  qed
  then obtain m where loop: "for_loop (unat a0) ?outer (replicate (length (data a)) None) = Some m"
    and lm: "length m = length (data a)"
    and cells: "\<And>i j. i < unat a0 \<Longrightarrow> j < unat b1 \<Longrightarrow> get_d m (?D i j) = Some (sum_of_products fp a b i j)"
    by auto
  have cr: "result_or_create NULL a = Some (Ptr (a\<lparr>data := replicate (length (data a)) None\<rparr>))"
    using ndarray_create_like[OF assms(1)] assms(3) by (simp add: result_or_create_def)
  have chk: "(nd a \<noteq> 2 \<or> nd b \<noteq> 2 \<or> dtype a \<noteq> dtype b) = False" by (simp add: assms(3,4,5))
  have r0: "rd (dimensions a) 0 = Some a0" and r1: "rd (dimensions a) 1 = Some a1"
    and s0: "rd (dimensions b) 0 = Some a1"
    by (simp_all add: dsa dsb b0 rd_def)
  have same: "(a1 \<noteq> a1) = False" by simp
  have dt: "data (a\<lparr>data := replicate (length (data a)) None\<rparr>) = replicate (length (data a)) None"
    by simp
  have res: "ndarray_dot fp NULL a b = Some (Ptr (a\<lparr>data := m\<rparr>))"
    by (simp only: ndarray_dot_def chk if_False r1 s0 same cr ptr.case r0 dt loop Option.bind.simps)
       simp
  have "matrix_product fp a b (a\<lparr>data := m\<rparr>)"
    using cells by (simp add: matrix_product_def dsa dsb assms(6))
  then show ?thesis using res lm by simp
qed

lemma ndarray_dot_f:
  assumes "wf_array a" "wf_array b" "nd a = 2" "nd b = 2" "dtype b = dtype a" "dtype a = tag_f"
    "dimensions a ! 1 = dimensions b ! 0" "dimensions b ! 1 \<le> dimensions a ! 1"
  shows "\<exists>r. ndarray_dot fp NULL a b = Some (Ptr r) \<and> r\<lparr>data := data a\<rparr> = a
           \<and> length (data r) = length (data a) \<and> matrix_product fp a b r"
proof -
  have e: "calculate_type_size (dtype a) = 4" "calculate_type_size (dtype b) = 4"
    using assms(5,6) by (simp_all add: calculate_type_size_def)
  from assms(1,3) e(1) obtain a0 a1 where dsa: "dimensions a = [a0, a1]"
    and lena: "length (data a) = unat (calculate_type_size (dtype a)) * (unat a0 * unat a1)"
    and Na: "unat a0 * unat a1 < 2 ^ 64"
    and ua: "\<And>i j. i < unat a0 \<Longrightarrow> j < unat a1 \<Longrightarrow> unat (of_nat i * a1 + of_nat j :: u64) = i * unat a1 + j"
    and fa: "\<And>i j. i < unat a0 \<Longrightarrow> j < unat a1 \<Longrightarrow>
           unat (calculate_type_size (dtype a)) * unat (of_nat i * a1 + of_nat j :: u64)
             + unat (calculate_type_size (dtype a)) \<le> length (data a)"
    by (elim rank2_positions[of a]) simp_all
  from assms(2,4) e(2) obtain b0 b1 where dsb: "dimensions b = [b0, b1]"
    and fb: "\<And>i j. i < unat b0 \<Longrightarrow> j < unat b1 \<Longrightarrow>
           unat (calculate_type_size (dtype b)) * unat (of_nat i * b1 + of_nat j :: u64)
             + unat (calculate_type_size (dtype b)) \<le> length (data b)"
    by (elim rank2_positions[of b]) simp_all
  have b0: "b0 = a1" using assms(7) by (simp add: dsa dsb)
  have le: "unat b1 \<le> unat a1" using assms(8) by (simp add: dsa dsb word_le_nat_alt)
  have Nd: "unat a0 * unat b1 < 2 ^ 64"
  proof -
    have "unat a0 * unat b1 \<le> unat a0 * unat a1" using le by (rule mult_le_mono2)
    then show ?thesis using Na by (rule le_less_trans)
  qed
  let ?D = "\<lambda>i j. (of_nat i * b1 + of_nat j :: u64)"
  have uD: "unat (?D i j) = i * unat b1 + j" if "i < unat a0" "j < unat b1" for i j
    using that Nd by (intro unat_position)
  have ra: "get_f (data a) (of_nat i * a1 + of_nat k) = Some (cell_f a i k)"
    if "i < unat a0" "k < unat a1" for i k
    using cell_f_read[of i a k] fa[OF that] by (simp add: dsa e)
  have rb: "get_f (data b) (of_nat k * b1 + of_nat j) = Some (cell_f b k j)"
    if "k < unat a1" "j < unat b1" for k j
    using cell_f_read[of k b j] fb[of k j] that by (simp add: dsb e b0)
  let ?sum = "\<lambda>b1 i j. for_loop (unat a1) (\<lambda>k sum.
                     if dtype a = tag_d then do {
                       x \<leftarrow> get_d (data a) (of_nat i * a1 + of_nat k);
                       y \<leftarrow> get_d (data b) (of_nat k * b1 + of_nat j);
                       Some (lift2 (d_add fp) sum (lift2 (d_mul fp) x y)) }
                     else if dtype a = tag_f then do {
                       x \<leftarrow> get_f (data a) (of_nat i * a1 + of_nat k);
                       y \<leftarrow> get_f (data b) (of_nat k * b1 + of_nat j);
                       Some (lift2 (d_add fp) sum (map_option (f2d fp) (lift2 (f_mul fp) x y))) }
                     else Some sum) (Some 0)"
  let ?inner = "\<lambda>b1 i j m. do {
                  sum \<leftarrow> ?sum b1 i j;
                  if dtype a = tag_d then set_d m (of_nat i * b1 + of_nat j) sum
                  else if dtype a = tag_f then set_f m (of_nat i * b1 + of_nat j) (map_option (d2f fp) sum)
                  else Some m }"
  let ?outer = "\<lambda>i m. do {
                b1 \<leftarrow> rd (dimensions b) 1;
                for_loop (unat b1) (?inner b1 i) m }"
  let ?m0 = "replicate (length (data a)) (None :: cell)"
  have sum: "?sum b1 i j = Some (sum_of_products fp a b i j)" if "i < unat a0" "j < unat b1" for i j
    unfolding sum_of_products_def
    by (simp add: dsa, rule fold_loop) (simp add: assms(6) ra rb that)
  have "\<exists>m. for_loop (unat a0) ?outer ?m0 = Some m
           \<and> length m = length ?m0
           \<and> (\<forall>i<unat a0. \<forall>j<unat b1. get_f m (?D i j) = Some (map_option (d2f fp) (sum_of_products fp a b i j)))"
  proof (rule write_loops[where fit = "\<lambda>n k. 4 * unat k + 4 \<le> n" and inner = "?inner b1",
        OF get_f_set_f_same get_f_set_f_other set_f_Some])
    show "?outer i m = for_loop (unat b1) (?inner b1 i) m" for i m
      by (simp add: dsb rd_def)
    show "?inner b1 i j m = set_f m (?D i j) (map_option (d2f fp) (sum_of_products fp a b i j))"
      if "i < unat a0" "j < unat b1" for i j m
      by (simp only: sum[OF that] Option.bind.simps) (simp add: assms(6))
    show "4 * unat (?D i j) + 4 \<le> length ?m0" if "i < unat a0" "j < unat b1" for i j
    proof -
      have "i * unat b1 + j < unat a0 * unat b1" using that by (rule position_lt)
      also have "\<dots> \<le> unat a0 * unat a1" using le by (rule mult_le_mono2)
      finally show ?thesis using uD[OF that] lena e by simp
    qed
    show "i = i' \<and> j = j'"
      if "i < unat a0" "j < unat b1" "i' < unat a0" "j' < unat b1" "?D i j = ?D i' j'" for i j i' j'
    proof -
      have "i * unat b1 + j = i' * unat b1 + j'" using that uD[of i j] uD[of i' j'] by simp
      then show ?thesis using position_inj[of j "unat b1" j' i i'] that by simp
    qed
  qed
  then obtain m where loop: "for_loop (unat a0) ?outer (replicate (length (data a)) None) = Some m"
    and lm: "length m = length (data a)"
    and cells: "\<And>i j. i < unat a0 \<Longrightarrow> j < unat b1 \<Longrightarrow> get_f m (?D i j) = Some (map_option (d2f fp) (sum_of_products fp a b i j))"
    by auto
  have cr: "result_or_create NULL a = Some (Ptr (a\<lparr>data := replicate (length (data a)) None\<rparr>))"
    using ndarray_create_like[OF assms(1)] assms(3) by (simp add: result_or_create_def)
  have chk: "(nd a \<noteq> 2 \<or> nd b \<noteq> 2 \<or> dtype a \<noteq> dtype b) = False" by (simp add: assms(3,4,5))
  have r0: "rd (dimensions a) 0 = Some a0" and r1: "rd (dimensions a) 1 = Some a1"
    and s0: "rd (dimensions b) 0 = Some a1"
    by (simp_all add: dsa dsb b0 rd_def)
  have same: "(a1 \<noteq> a1) = False" by simp
  have dt: "data (a\<lparr>data := replicate (length (data a)) None\<rparr>) = replicate (length (data a)) None"
    by simp
  have res: "ndarray_dot fp NULL a b = Some (Ptr (a\<lparr>data := m\<rparr>))"
    by (simp only: ndarray_dot_def chk if_False r1 s0 same cr ptr.case r0 dt loop Option.bind.simps)
       simp
  have "matrix_product fp a b (a\<lparr>data := m\<rparr>)"
    using cells by (simp add: matrix_product_def dsa dsb assms(6))
  then show ?thesis using res lm by simp
qed

text \<open>
  \<open>ndarray_broadcast_add\<close> on matrices of dtype \<open>'d'\<close> or \<open>'f'\<close> where \<open>B\<close> lies within the
  extents of \<open>A\<close>, so that the fresh output has room.
\<close>

lemma operand_at_entry:
  "operand_at fp a (of_nat i * (dimensions a ! 1) + of_nat j) = Some x \<Longrightarrow> entry fp a i j = x"
  by (auto simp add: operand_at_def entry_def cell_d_def cell_f_def split: if_splits)

lemma of_nat_less_word: "i < 2 ^ 64 \<Longrightarrow> ((of_nat i :: u64) < w) = (i < unat w)"
  by (simp add: word_less_nat_alt unat_of_nat_64)

text \<open>The value that \<open>ndarray_broadcast_add\<close> reads for position \<open>(i,j)\<close> of an operand.\<close>

lemma padded_read:
  assumes "wf_array a" "nd a = 2" "dtype a = tag_d \<or> dtype a = tag_f" "dimensions a = [d0, d1]"
    "i < 2 ^ 64" "j < 2 ^ 64"
  shows "(if (of_nat i :: u64) < d0 \<and> (of_nat j :: u64) < d1
          then operand_at fp a (of_nat i * d1 + of_nat j) else Some (Some 0)) = Some (padded fp a i j)"
proof (cases "i < unat d0 \<and> j < unat d1")
  case False
  then show ?thesis using assms(4,5,6) by (auto simp add: padded_def of_nat_less_word)
next
  case True
  have e: "calculate_type_size (dtype a) \<noteq> 0" using assms(3) by (auto simp add: calculate_type_size_def)
  from assms(1,2) e obtain a0 a1 where ds: "dimensions a = [a0, a1]"
    and f: "\<And>i j. i < unat a0 \<Longrightarrow> j < unat a1 \<Longrightarrow>
           unat (calculate_type_size (dtype a)) * unat (of_nat i * a1 + of_nat j :: u64)
             + unat (calculate_type_size (dtype a)) \<le> length (data a)"
    by (elim rank2_positions[of a]) simp_all
  have "unat (calculate_type_size (dtype a)) * (unat (of_nat i * d1 + of_nat j :: u64) + 1) \<le> length (data a)"
    using f[of i j] True ds assms(4) by simp
  with assms(3) obtain x where x: "operand_at fp a (of_nat i * d1 + of_nat j) = Some x"
    using operand_at_Some by blast
  then have "entry fp a i j = x" using operand_at_entry[of fp a i j x] assms(4) by simp
  then show ?thesis using True x assms(4,5,6) by (simp add: padded_def of_nat_less_word)
qed

lemma ndarray_broadcast_add_df:
  assumes "wf_array a" "wf_array b" "nd a = 2" "nd b = 2" "dtype b = dtype a"
    "dtype a = tag_d \<or> dtype a = tag_f"
    "dimensions b ! 0 \<le> dimensions a ! 0" "dimensions b ! 1 \<le> dimensions a ! 1"
  shows "\<exists>r. ndarray_broadcast_add fp NULL a b = Some (Ptr r) \<and> r\<lparr>data := data a\<rparr> = a
           \<and> length (data r) = length (data a) \<and> padded_sum fp a b r"
proof -
  have e: "calculate_type_size (dtype a) \<noteq> 0" using assms(6) by (auto simp add: calculate_type_size_def)
  from assms(1,3) e obtain a0 a1 where dsa: "dimensions a = [a0, a1]"
    and lena: "length (data a) = unat (calculate_type_size (dtype a)) * (unat a0 * unat a1)"
    and Na: "unat a0 * unat a1 < 2 ^ 64"
    and ua: "\<And>i j. i < unat a0 \<Longrightarrow> j < unat a1 \<Longrightarrow> unat (of_nat i * a1 + of_nat j :: u64) = i * unat a1 + j"
    and fa: "\<And>i j. i < unat a0 \<Longrightarrow> j < unat a1 \<Longrightarrow>
           unat (calculate_type_size (dtype a)) * unat (of_nat i * a1 + of_nat j :: u64)
             + unat (calculate_type_size (dtype a)) \<le> length (data a)"
    by (elim rank2_positions[of a]) simp_all
  from assms(2,4) obtain b0 b1 where dsb: "dimensions b = [b0, b1]"
    by (elim rank2_shape[of b]) simp_all
  have le: "b0 \<le> a0" "b1 \<le> a1" using assms(7,8) by (simp_all add: dsa dsb)
  have rows: "(if b0 < a0 then a0 else b0) = a0" and cols: "(if b1 < a1 then a1 else b1) = a1"
    using le by auto
  have mx: "max a0 b0 = a0" "max a1 b1 = a1" using le by (simp_all add: max_absorb1)
  let ?D = "\<lambda>i j. (of_nat i * a1 + of_nat j :: u64)"
  let ?W = "\<lambda>i j. lift2 (d_add fp) (padded fp a i j) (padded fp b i j)"
  let ?inner = "\<lambda>i j m. do {
                   val_a \<leftarrow> (if (of_nat i :: u64) < a0 \<and> (of_nat j :: u64) < a1
                              then operand_at fp a (of_nat i * a1 + of_nat j) else Some (Some 0));
                   val_b \<leftarrow> (if (of_nat i :: u64) < b0 \<and> (of_nat j :: u64) < b1
                              then operand_at fp b (of_nat i * b1 + of_nat j) else Some (Some 0));
                   if dtype a = tag_d then set_d m (of_nat i * a1 + of_nat j) (lift2 (d_add fp) val_a val_b)
                   else if dtype a = tag_f
                     then set_f m (of_nat i * a1 + of_nat j) (map_option (d2f fp) (lift2 (d_add fp) val_a val_b))
                   else Some m }"
  let ?m0 = "replicate (length (data a)) (None :: cell)"
  have small: "i < 2 ^ 64" if "i < unat (w :: u64)" for i w
  proof -
    have "unat w < 2 ^ 64" using unsigned_less[of w, where 'a = nat] by simp
    with that show ?thesis by (rule less_trans)
  qed
  have va: "(if (of_nat i :: u64) < a0 \<and> (of_nat j :: u64) < a1
              then operand_at fp a (of_nat i * a1 + of_nat j) else Some (Some 0)) = Some (padded fp a i j)"
    if "i < unat a0" "j < unat a1" for i j
    using assms(1,3,6) dsa small[OF that(1)] small[OF that(2)] by (rule padded_read)
  have vb: "(if (of_nat i :: u64) < b0 \<and> (of_nat j :: u64) < b1
              then operand_at fp b (of_nat i * b1 + of_nat j) else Some (Some 0)) = Some (padded fp b i j)"
    if "i < unat a0" "j < unat a1" for i j
  proof (rule padded_read)
    show "dtype b = tag_d \<or> dtype b = tag_f" using assms(5,6) by simp
  qed (use assms(2,4) dsb small[OF that(1)] small[OF that(2)] in simp_all)
  have inj: "i = i' \<and> j = j'"
    if "i < unat a0" "j < unat a1" "i' < unat a0" "j' < unat a1" "?D i j = ?D i' j'" for i j i' j'
  proof -
    have "i * unat a1 + j = i' * unat a1 + j'" using that ua[of i j] ua[of i' j'] by simp
    then show ?thesis using position_inj[of j "unat a1" j' i i'] that by simp
  qed
  have "\<exists>m. for_loop (unat a0) (\<lambda>i. for_loop (unat a1) (?inner i)) ?m0 = Some m
           \<and> length m = length ?m0
           \<and> (\<forall>i<unat a0. \<forall>j<unat a1.
                 (if dtype a = tag_d then get_d m (?D i j) = Some (?W i j)
                  else get_f m (?D i j) = Some (map_option (d2f fp) (?W i j))))"
  proof (cases "dtype a = tag_d")
    case True
    have "\<exists>m. for_loop (unat a0) (\<lambda>i. for_loop (unat a1) (?inner i)) ?m0 = Some m
           \<and> length m = length ?m0
           \<and> (\<forall>i<unat a0. \<forall>j<unat a1. get_d m (?D i j) = Some (?W i j))"
    proof (rule write_loops[where fit = "\<lambda>n k. 8 * unat k + 8 \<le> n" and inner = ?inner,
          OF get_d_set_d_same get_d_set_d_other set_d_Some])
      show "for_loop (unat a1) (?inner i) m = for_loop (unat a1) (?inner i) m" for i m by simp
      show "?inner i j m = set_d m (?D i j) (?W i j)" if "i < unat a0" "j < unat a1" for i j m
        by (simp only: va[OF that] vb[OF that] Option.bind.simps) (simp add: True)
      show "8 * unat (?D i j) + 8 \<le> length ?m0" if "i < unat a0" "j < unat a1" for i j
        using fa[OF that] True by (simp add: calculate_type_size_def)
      show "i = i' \<and> j = j'"
        if "i < unat a0" "j < unat a1" "i' < unat a0" "j' < unat a1" "?D i j = ?D i' j'" for i j i' j'
        using that by (rule inj)
    qed
    then show ?thesis using True by simp
  next
    case False
    then have f: "dtype a = tag_f" using assms(6) by simp
    have "\<exists>m. for_loop (unat a0) (\<lambda>i. for_loop (unat a1) (?inner i)) ?m0 = Some m
           \<and> length m = length ?m0
           \<and> (\<forall>i<unat a0. \<forall>j<unat a1. get_f m (?D i j) = Some (map_option (d2f fp) (?W i j)))"
    proof (rule write_loops[where fit = "\<lambda>n k. 4 * unat k + 4 \<le> n" and inner = ?inner,
          OF get_f_set_f_same get_f_set_f_other set_f_Some])
      show "for_loop (unat a1) (?inner i) m = for_loop (unat a1) (?inner i) m" for i m by simp
      show "?inner i j m = set_f m (?D i j) (map_option (d2f fp) (?W i j))"
        if "i < unat a0" "j < unat a1" for i j m
        by (simp only: va[OF that] vb[OF that] Option.bind.simps) (simp add: f)
      show "4 * unat (?D i j) + 4 \<le> length ?m0" if "i < unat a0" "j < unat a1" for i j
        using fa[OF that] f by (simp add: calculate_type_size_def)
      show "i = i' \<and> j = j'"
        if "i < unat a0" "j < unat a1" "i' < unat a0" "j' < unat a1" "?D i j = ?D i' j'" for i j i' j'
        using that by (rule inj)
    qed
    then show ?thesis using False by simp
  qed
  then obtain m where loop: "for_loop (unat a0) (\<lambda>i. for_loop (unat a1) (?inner i))
                               (replicate (length (data a)) None) = Some m"
    and lm: "length m = length (data a)"
    and cells: "\<And>i j. i < unat a0 \<Longrightarrow> j < unat a1 \<Longrightarrow>
                 (if dtype a = tag_d then get_d m (?D i j) = Some (?W i j)
                  else get_f m (?D i j) = Some (map_option (d2f fp) (?W i j)))"
    by auto
  have cr: "result_or_create NULL a = Some (Ptr (a\<lparr>data := replicate (length (data a)) None\<rparr>))"
    using ndarray_create_like[OF assms(1)] assms(3) by (simp add: result_or_create_def)
  have chk: "(nd a \<noteq> 2 \<or> nd b \<noteq> 2 \<or> dtype a \<noteq> dtype b) = False" by (simp add: assms(3,4,5))
  have r0: "rd (dimensions a) 0 = Some a0" and r1: "rd (dimensions a) 1 = Some a1"
    and s0: "rd (dimensions b) 0 = Some b0" and s1: "rd (dimensions b) 1 = Some b1"
    by (simp_all add: dsa dsb rd_def)
  have dt: "data (a\<lparr>data := replicate (length (data a)) None\<rparr>) = replicate (length (data a)) None"
    by simp
  have res: "ndarray_broadcast_add fp NULL a b = Some (Ptr (a\<lparr>data := m\<rparr>))"
    by (simp only: ndarray_broadcast_add_def chk if_False r0 r1 s0 s1 Let_def rows cols cr ptr.case dt loop
          Option.bind.simps)
       simp
  have "padded_sum fp a b (a\<lparr>data := m\<rparr>)"
    using cells by (simp add: padded_sum_def dsa dsb mx Let_def)
  then show ?thesis using res lm by simp
qed

text \<open>The setters at an index inside the extents.\<close>

lemma setters_store:
  assumes "wf_array a" "in_bounds a idx"
  shows "dtype a = tag_d \<Longrightarrow> stored idx (ndarray_set_point_d a idx v) (to_cells 8 (Some v))"
    and "dtype a = tag_f \<Longrightarrow> stored idx (ndarray_set_point_f a idx w) (to_cells 4 (Some w))"
    and "dtype a = tag_i \<Longrightarrow> stored idx (ndarray_set_point_u64 a idx v) (to_cells 8 (Some v))"
    and "unat (calculate_type_size (dtype a)) \<le> length bs \<Longrightarrow>
           stored idx (ndarray_set_point a idx bs) (take (unat (calculate_type_size (dtype a))) bs)"
proof -
  let ?e = "calculate_type_size (dtype a)"
  from offset_in_bounds[OF assms] obtain off where
    off: "point_offset a idx = Some off" and fit: "unat off + unat ?e \<le> length (data a)"
    by blast
  have typed: "\<exists>m'. store (data a) (unat off) cs = Some m' \<and>
           (ndarray_get_point (a\<lparr>data := m'\<rparr>) idx \<bind> (\<lambda>p. load (data (a\<lparr>data := m'\<rparr>)) (unat p) (length cs))) = Some cs"
    if "length cs = unat ?e" for cs
    using off fit that by (intro store_then_read) simp_all
  show "stored idx (ndarray_set_point_d a idx v) (to_cells 8 (Some v))" if "dtype a = tag_d"
  proof -
    have "length (to_cells 8 (Some v)) = unat ?e" using that by (simp add: calculate_type_size_def)
    from typed[OF this] show ?thesis using off
      by (auto simp add: stored_def ndarray_set_point_d_def store64_def)
  qed
  show "stored idx (ndarray_set_point_f a idx w) (to_cells 4 (Some w))" if "dtype a = tag_f"
  proof -
    have "length (to_cells 4 (Some w)) = unat ?e" using that by (simp add: calculate_type_size_def)
    from typed[OF this] show ?thesis using off
      by (auto simp add: stored_def ndarray_set_point_f_def store32_def)
  qed
  show "stored idx (ndarray_set_point_u64 a idx v) (to_cells 8 (Some v))" if "dtype a = tag_i"
  proof -
    have "length (to_cells 8 (Some v)) = unat ?e" using that by (simp add: calculate_type_size_def)
    from typed[OF this] show ?thesis using off
      by (auto simp add: stored_def ndarray_set_point_u64_def store64_def)
  qed
  show "stored idx (ndarray_set_point a idx bs) (take (unat ?e) bs)" if "unat ?e \<le> length bs"
  proof -
    have len: "length (take (unat ?e) bs) = unat ?e" using that by simp
    have "load bs 0 (unat ?e) = Some (take (unat ?e) bs)"
      using that by (simp add: load_def)
    with typed[OF len] show ?thesis using off len
      by (auto simp add: stored_def ndarray_set_point_def)
  qed
qed

lemma wf_col_34: "wf_array col_34"
proof -
  have "stride_invariant col_34"
    by (rule row_major_stride_invariant)
       (simp_all add: col_34_def row_major_def calculate_type_size_def upt_rec)
  then show ?thesis by (simp add: wf_array_def col_34_def calculate_type_size_def)
qed

lemma wf_cell_1: "wf_array cell_1"
proof -
  have "stride_invariant cell_1"
    by (rule row_major_stride_invariant)
       (simp_all add: cell_1_def row_major_def calculate_type_size_def upt_rec)
  then show ?thesis by (simp add: wf_array_def cell_1_def calculate_type_size_def)
qed

lemma wf_flt_row_12: "wf_array flt_row_12"
proof -
  have "stride_invariant flt_row_12"
    by (rule row_major_stride_invariant)
       (simp_all add: flt_row_12_def row_major_def calculate_type_size_def upt_rec)
  then show ?thesis by (simp add: wf_array_def flt_row_12_def calculate_type_size_def)
qed

lemma wf_int_row_12: "wf_array int_row_12"
proof -
  have "stride_invariant int_row_12"
    by (rule row_major_stride_invariant)
       (simp_all add: int_row_12_def row_major_def calculate_type_size_def upt_rec)
  then show ?thesis by (simp add: wf_array_def int_row_12_def calculate_type_size_def)
qed

lemma in_bounds_int_row_12: "in_bounds int_row_12 [0, 1]"
  by (auto simp add: in_bounds_def int_row_12_def less_2_cases_iff)

lemma unwritten_same:
  assumes "r\<lparr>data := data a\<rparr> = a" "length (data r) = length (data a)"
  shows "unwritten r = unwritten a"
proof -
  have "r\<lparr>data := replicate (length (data a)) None\<rparr>
          = (r\<lparr>data := data a\<rparr>)\<lparr>data := replicate (length (data a)) None\<rparr>"
    by simp
  then show ?thesis using assms by (simp only: unwritten_def)
qed

section \<open>Matrix product: the shape of the result\<close>

text \<open>
  C1. The claim: for \<open>A\<close> of shape \<open>[m,k]\<close> and \<open>B\<close> of shape \<open>[k,n]\<close>, \<open>dot\<close> without a
  caller-supplied output returns an array of shape \<open>[m,n]\<close> with the sums of products.
  The code allocates the output with \<open>a->dimensions\<close>: for \<open>A = [[1.0, 2.0]]\<close> and
  \<open>B = [[3.0], [4.0]]\<close> it returns an array of shape \<open>[1,2]\<close>, not \<open>[1,1]\<close>, whose second
  cell is never written. (Whatever the operands, a fresh output has the extents of \<open>A\<close>:
  lemma \<open>fresh_output_has_shape_of_a\<close>. The \<open>NULL\<close> for operands whose inner extents
  differ is as claimed: lemma \<open>dot_rejects\<close>.)
\<close>

theorem dot_output_has_shape_of_a:
  "ndarray_dot fp NULL row_12 col_34 =
     Some (Ptr \<lparr> data = to_cells 8 (Some (d_add fp (d_add fp 0 (d_mul fp dbl_1 dbl_3)) (d_mul fp dbl_2 dbl_4)))
                        @ replicate 8 None,
                 dimensions = [1, 2], strides = [Some 16, Some 8], nd = 2, dtype = tag_d \<rparr>)"
  by (simp add: ndarray_dot_def row_12_def col_34_def run_simps)

text \<open>The shape and the second cell of that result, for every floating-point unit.\<close>

theorem dot_output_has_shape_of_a_witness:
  "\<forall>fp. (case ndarray_dot fp NULL row_12 col_34 of
           Some (Ptr r) \<Rightarrow> dimensions r = [1, 2] \<and> dimensions r \<noteq> [1, 1] \<and> get_d (data r) 1 = Some None
         | _ \<Rightarrow> False)"
  using dot_output_has_shape_of_a
  by (simp add: get_d_def load64_def load_def to_cells_def from_cells_def replicate_num)

section \<open>Concatenation: the copy loop\<close>

text \<open>
  C2. The claim: \<open>concat(A, B, axis)\<close> has \<open>A\<close>'s shape with the two extents added on
  \<open>axis\<close>, and its two slices along \<open>axis\<close> are \<open>A\<close> and \<open>B\<close>. The code decomposes the
  linear index of an output element with the byte strides of the output: for
  \<open>A = [1.0, 2.0]\<close>, \<open>B = [3.0]\<close> and \<open>axis = 0\<close> the shape is \<open>[3]\<close>, but every linear index
  below 8 is divided by the stride 8 to the coordinate 0, and all three cells receive
  \<open>A[0]\<close>. (With two 2 x 3 arrays the copy loop reads outside the source: lemma
  \<open>concat_of_two_grids_reads_outside\<close>.)
\<close>

theorem concat_copies_first_element:
  "ndarray_concat (Ptr vec_12) (Ptr vec_3) 0 =
     Some (Ptr \<lparr> data = map Some (bytes_of 8 dbl_1 @ bytes_of 8 dbl_1 @ bytes_of 8 dbl_1),
                 dimensions = [3], strides = [Some 8], nd = 1, dtype = tag_d \<rparr>)"
  by (simp add: ndarray_concat_def concat_step_def vec_12_def vec_3_def run_simps)

text \<open>The cells of that result, read back as \<open>double\<close>s: 1.0, 1.0, 1.0 and not 1.0, 2.0, 3.0.\<close>

theorem concat_copies_first_element_witness:
  "(case ndarray_concat (Ptr vec_12) (Ptr vec_3) 0 of
      Some (Ptr r) \<Rightarrow> dimensions r = [3] \<and>
         map (get_d (data r)) [0, 1, 2] = [Some (Some dbl_1), Some (Some dbl_1), Some (Some dbl_1)]
    | _ \<Rightarrow> False)"
  using concat_copies_first_element
  by (simp add: get_d_def load64_def load_def from_cells_def)

section \<open>Broadcast add: the extent of the output\<close>

text \<open>
  C3. The claim: \<open>broadcastAdd(A, B)\<close> without a caller-supplied output produces an array
  of \<open>max(A.rows, B.rows)\<close> by \<open>max(A.cols, B.cols)\<close> cells, each the sum of the two
  zero-padded operands. The code computes \<open>rows\<close> and \<open>cols\<close> and then allocates the output
  with \<open>a->dimensions\<close>: for \<open>A = [[1.0]]\<close> and \<open>B = [[3.0, 4.0]]\<close> the output block has one
  cell, and the assignment of cell \<open>(0,1)\<close> lies outside it.
\<close>

theorem broadcast_add_writes_outside_output:
  "ndarray_broadcast_add fp NULL cell_1 row_34 = None"
  by (simp add: ndarray_broadcast_add_def operand_at_def cell_1_def row_34_def run_simps)

text \<open>The output that is allocated for these operands, and the failure of the operation.\<close>

theorem broadcast_add_writes_outside_output_witness:
  "\<forall>fp. result_or_create NULL cell_1 =
          Some (Ptr \<lparr> data = replicate 8 None, dimensions = [1, 1],
                      strides = [Some 8, Some 8], nd = 2, dtype = tag_d \<rparr>)
        \<and> ndarray_broadcast_add fp NULL cell_1 row_34 = None"
  using broadcast_add_writes_outside_output
  by (simp add: cell_1_def run_simps)

section \<open>Elementwise operations: the number of elements\<close>

text \<open>
  C4. The claim: for arrays of any rank with equal shape and dtype, \<open>add\<close> and \<open>subtract\<close>
  work on all \<open>product(shape)\<close> elements. The loops of the code run to
  \<open>dimensions[0] * dimensions[1]\<close>: for the operands \<open>[[[1.0, 2.0]]]\<close> and \<open>[[[3.0, 4.0]]]\<close> of
  shape \<open>[1,1,2]\<close> one element is computed and the second cell of the output is never
  written. (For rank 2 and the dtypes \<open>'d'\<close> and \<open>'f'\<close> every element is computed: lemmas
  \<open>ndarray_add_d\<close>, \<open>ndarray_add_f\<close>, \<open>ndarray_subtract_d\<close>, \<open>ndarray_subtract_f\<close>.)
\<close>

theorem add_subtract_stop_after_two_axes:
  "ndarray_add fp NULL cube_12 cube_34 =
     Some (Ptr \<lparr> data = to_cells 8 (Some (d_add fp dbl_1 dbl_3)) @ replicate 8 None,
                 dimensions = [1, 1, 2], strides = [Some 16, Some 16, Some 8], nd = 3, dtype = tag_d \<rparr>)
   \<and> ndarray_subtract fp NULL cube_12 cube_34 =
     Some (Ptr \<lparr> data = to_cells 8 (Some (d_sub fp dbl_1 dbl_3)) @ replicate 8 None,
                 dimensions = [1, 1, 2], strides = [Some 16, Some 16, Some 8], nd = 3, dtype = tag_d \<rparr>)"
  by (simp add: ndarray_add_def ndarray_subtract_def cube_12_def cube_34_def run_simps)

text \<open>The second element of both results is indeterminate.\<close>

theorem add_subtract_stop_after_two_axes_witness:
  "\<forall>fp. (case ndarray_add fp NULL cube_12 cube_34 of
           Some (Ptr r) \<Rightarrow> get_d (data r) 0 = Some (Some (d_add fp dbl_1 dbl_3)) \<and> get_d (data r) 1 = Some None
         | _ \<Rightarrow> False)
      \<and> (case ndarray_subtract fp NULL cube_12 cube_34 of
           Some (Ptr r) \<Rightarrow> get_d (data r) 0 = Some (Some (d_sub fp dbl_1 dbl_3)) \<and> get_d (data r) 1 = Some None
         | _ \<Rightarrow> False)"
  using add_subtract_stop_after_two_axes
  by (simp add: get_d_def load64_def load_def to_cells_def from_cells_def replicate_num)

section \<open>Subsampling: the length of a row\<close>

text \<open>
  C7. The claim: \<open>subsample(A, n)\<close> fails for \<open>n > A.shape[0]\<close> and otherwise returns \<open>n\<close>
  rows, each identical to a row of \<open>A\<close>, for every array \<open>A\<close>. The copy loop of the code
  takes \<open>dimensions[1]\<close> for the length of a row: for \<open>A = [[[1.0, 2.0]]]\<close> of shape
  \<open>[1,1,2]\<close> and \<open>n = 1\<close> the output has the shape of \<open>A\<close>, but only the first of the two
  elements of its row is copied, whatever \<open>rand()\<close> returns. (For rank 2 and the dtypes
  \<open>'d'\<close> and \<open>'f'\<close> the rows of the output are distinct rows of \<open>A\<close>: lemmas
  \<open>ndarray_subsample_d\<close>, \<open>ndarray_subsample_f\<close>. The \<open>NULL\<close> for \<open>n > A.shape[0]\<close> is lemma
  \<open>subsample_rejects\<close>.)
\<close>

theorem subsample_copies_part_of_row:
  "ndarray_subsample rnd cube_12 1 =
     Some (Ptr \<lparr> data = map Some (bytes_of 8 dbl_1) @ replicate 8 None,
                 dimensions = [1, 1, 2], strides = [Some 16, Some 16, Some 8], nd = 3, dtype = tag_d \<rparr>)"
  by (simp add: ndarray_subsample_def cube_12_def run_simps)

text \<open>The row of the result against the row of the source.\<close>

theorem subsample_copies_part_of_row_witness:
  "\<forall>rnd. (case ndarray_subsample rnd cube_12 1 of
            Some (Ptr r) \<Rightarrow> map (get_d (data r)) [0, 1] = [Some (Some dbl_1), Some None]
          | _ \<Rightarrow> False)
       \<and> map (get_d (data cube_12)) [0, 1] = [Some (Some dbl_1), Some (Some dbl_2)]"
  using subsample_copies_part_of_row
  by (simp add: cube_12_def get_d_def load64_def load_def from_cells_def replicate_num)

section \<open>Transpose: the integer dtype\<close>

text \<open>
  C9. The claim: for every array \<open>A\<close> of rank 2, \<open>transpose(A)\<close> has the swapped shape and
  \<open>result[j,i] = A[i,j]\<close>; for every other rank it fails. The copy loop of the code has a
  branch for \<open>'d'\<close> and one for \<open>'f'\<close>: for the matrix \<open>[[1, 2]]\<close> of dtype \<open>'i'\<close>, which
  ndarray.h lists as the integer dtype, the result has the shape \<open>[2,1]\<close> and none of its
  cells is written. (For the dtypes \<open>'d'\<close> and \<open>'f'\<close> the result is the transposed matrix:
  lemmas \<open>ndarray_transpose_d\<close>, \<open>ndarray_transpose_f\<close>. The \<open>NULL\<close> for a rank other than 2
  is lemma \<open>transpose_rejects\<close>.)
\<close>

theorem transpose_skips_integer_dtype:
  "ndarray_transpose int_row_12 =
     Some (Ptr \<lparr> data = replicate 16 None,
                 dimensions = [2, 1], strides = [Some 8, Some 8], nd = 2, dtype = tag_i \<rparr>)"
  by (simp add: ndarray_transpose_def int_row_12_def run_simps)

text \<open>The cells of the result against the cells of the source.\<close>

theorem transpose_skips_integer_dtype_witness:
  "(case ndarray_transpose int_row_12 of
      Some (Ptr r) \<Rightarrow> map (get_d (data r)) [0, 1] = [Some None, Some None]
    | _ \<Rightarrow> False)
   \<and> map (get_d (data int_row_12)) [0, 1] = [Some (Some 1), Some (Some 2)]"
  using transpose_skips_integer_dtype
  by (simp add: int_row_12_def get_d_def load64_def load_def from_cells_def replicate_num)

section \<open>Set, then get\<close>

text \<open>
  C10. For every array, every index tuple inside its extents and every value \<open>v\<close> of its
  dtype, \<open>set\<close> followed by \<open>get\<close> yields \<open>v\<close>, bit for bit. \<open>set\<close> is the setter of the
  dtype (\<open>ndarray_set_point_d\<close> for \<open>'d'\<close>, \<open>ndarray_set_point_f\<close> for \<open>'f'\<close>,
  \<open>ndarray_set_point_u64\<close> for \<open>'i'\<close>) or, for any dtype, \<open>ndarray_set_point\<close> with the
  \<open>elementSize\<close> bytes of the value; \<open>get\<close> is \<open>ndarray_get_point\<close>, read through a pointer
  of the dtype. Each setter returns 0 and the read returns what was stored.
\<close>

theorem set_get_round_trip:
  assumes "wf_array a" "in_bounds a idx"
  shows "(dtype a = tag_d \<longrightarrow>
           (\<exists>a'. ndarray_set_point_d a idx v = Some (0, a') \<and>
                 (ndarray_get_point a' idx \<bind> (\<lambda>p. load64 (data a') (unat p))) = Some (Some v)))
       \<and> (dtype a = tag_f \<longrightarrow>
           (\<exists>a'. ndarray_set_point_f a idx w = Some (0, a') \<and>
                 (ndarray_get_point a' idx \<bind> (\<lambda>p. load32 (data a') (unat p))) = Some (Some w)))
       \<and> (dtype a = tag_i \<longrightarrow>
           (\<exists>a'. ndarray_set_point_u64 a idx v = Some (0, a') \<and>
                 (ndarray_get_point a' idx \<bind> (\<lambda>p. load64 (data a') (unat p))) = Some (Some v)))
       \<and> (unat (calculate_type_size (dtype a)) \<le> length bs \<longrightarrow>
           (\<exists>a'. ndarray_set_point a idx bs = Some (0, a') \<and>
                 (ndarray_get_point a' idx \<bind> (\<lambda>p. load (data a') (unat p) (unat (calculate_type_size (dtype a)))))
                   = Some (take (unat (calculate_type_size (dtype a))) bs)))"
proof -
  let ?e = "calculate_type_size (dtype a)"
  from offset_in_bounds[OF assms] obtain off where
    off: "point_offset a idx = Some off" and fit: "unat off + unat ?e \<le> length (data a)"
    by blast
  have typed: "\<exists>m'. store (data a) (unat off) cs = Some m' \<and>
           (ndarray_get_point (a\<lparr>data := m'\<rparr>) idx \<bind> (\<lambda>p. load (data (a\<lparr>data := m'\<rparr>)) (unat p) (length cs))) = Some cs"
    if "length cs = unat ?e" for cs
    using off fit that by (intro store_then_read) simp_all
  have c1: "\<exists>a'. ndarray_set_point_d a idx v = Some (0, a') \<and>
                 (ndarray_get_point a' idx \<bind> (\<lambda>p. load64 (data a') (unat p))) = Some (Some v)"
    if "dtype a = tag_d"
  proof -
    have "length (to_cells 8 (Some v)) = unat ?e" using that by (simp add: calculate_type_size_def)
    from typed[OF this] obtain m' where "store (data a) (unat off) (to_cells 8 (Some v)) = Some m'"
      "(ndarray_get_point (a\<lparr>data := m'\<rparr>) idx \<bind> (\<lambda>p. load m' (unat p) 8)) = Some (to_cells 8 (Some v))"
      by auto
    then show ?thesis using off
      by (auto simp add: ndarray_set_point_d_def store64_def load64_def ndarray_get_point_def)
  qed
  have c2: "\<exists>a'. ndarray_set_point_f a idx w = Some (0, a') \<and>
                 (ndarray_get_point a' idx \<bind> (\<lambda>p. load32 (data a') (unat p))) = Some (Some w)"
    if "dtype a = tag_f"
  proof -
    have "length (to_cells 4 (Some w)) = unat ?e" using that by (simp add: calculate_type_size_def)
    from typed[OF this] obtain m' where "store (data a) (unat off) (to_cells 4 (Some w)) = Some m'"
      "(ndarray_get_point (a\<lparr>data := m'\<rparr>) idx \<bind> (\<lambda>p. load m' (unat p) 4)) = Some (to_cells 4 (Some w))"
      by auto
    then show ?thesis using off
      by (auto simp add: ndarray_set_point_f_def store32_def load32_def ndarray_get_point_def)
  qed
  have c3: "\<exists>a'. ndarray_set_point_u64 a idx v = Some (0, a') \<and>
                 (ndarray_get_point a' idx \<bind> (\<lambda>p. load64 (data a') (unat p))) = Some (Some v)"
    if "dtype a = tag_i"
  proof -
    have "length (to_cells 8 (Some v)) = unat ?e" using that by (simp add: calculate_type_size_def)
    from typed[OF this] obtain m' where "store (data a) (unat off) (to_cells 8 (Some v)) = Some m'"
      "(ndarray_get_point (a\<lparr>data := m'\<rparr>) idx \<bind> (\<lambda>p. load m' (unat p) 8)) = Some (to_cells 8 (Some v))"
      by auto
    then show ?thesis using off
      by (auto simp add: ndarray_set_point_u64_def store64_def load64_def ndarray_get_point_def)
  qed
  have c4: "\<exists>a'. ndarray_set_point a idx bs = Some (0, a') \<and>
                 (ndarray_get_point a' idx \<bind> (\<lambda>p. load (data a') (unat p) (unat ?e))) = Some (take (unat ?e) bs)"
    if "unat ?e \<le> length bs"
  proof -
    have len: "length (take (unat ?e) bs) = unat ?e" using that by simp
    from typed[OF len, unfolded len] obtain m' where "store (data a) (unat off) (take (unat ?e) bs) = Some m'"
      "(ndarray_get_point (a\<lparr>data := m'\<rparr>) idx \<bind> (\<lambda>p. load m' (unat p) (unat ?e))) = Some (take (unat ?e) bs)"
      by auto
    moreover have "load bs 0 (unat ?e) = Some (take (unat ?e) bs)"
      using that by (simp add: load_def)
    ultimately show ?thesis using off
      by (auto simp add: ndarray_set_point_def)
  qed
  show ?thesis using c1 c2 c3 c4 by blast
qed

text \<open>The round trip at index \<open>[1,2]\<close> of the 2 x 3 array, with the value 1.0.\<close>

theorem set_get_round_trip_witness:
  "\<exists>a'. ndarray_set_point_d grid_23 [1, 2] dbl_1 = Some (0, a') \<and>
        (ndarray_get_point a' [1, 2] \<bind> (\<lambda>p. load64 (data a') (unat p))) = Some (Some dbl_1)"
  using set_get_round_trip[OF wf_grid_23 in_bounds_grid_23, of dbl_1, THEN conjunct1]
  by (simp add: grid_23_def)

section \<open>Indexing: no range check\<close>

text \<open>
  C5, as claimed: \<open>get\<close> and \<open>set\<close> succeed only for \<open>idx[i] < shape[i]\<close> on every axis and
  fail with \<open>IndexOutOfRangeError\<close> otherwise. The code has no such check. On the 2 x 3 array
  the index \<open>[0,3]\<close> is outside the extents; \<open>ndarray_get_point\<close> returns the offset 24 for
  it, which is the offset of the element \<open>[1,0]\<close>, and \<open>ndarray_set_point_d\<close> stores there
  and returns 0.
\<close>

theorem out_of_range_index_is_accepted:
  "ndarray_get_point grid_23 [0, 3] = Some 24
   \<and> ndarray_set_point_d grid_23 [0, 3] dbl_1 =
       Some (0, grid_23\<lparr>data := replicate 24 None @ map Some (bytes_of 8 dbl_1) @ replicate 16 None\<rparr>)
   \<and> ndarray_get_point grid_23 [1, 0] = Some 24"
  by (simp add: ndarray_get_point_def ndarray_set_point_d_def point_offset_def grid_23_def
        for_loop_numeral for_loop_1 rd_def store64_def store_def to_cells_def)

text \<open>
  C5, as amended: for every array and every index tuple of length \<open>rank\<close>, \<open>get\<close> returns the
  pointer at the byte offset \<open>\<Sum> idx[i] * strides[i]\<close>, computed in \<open>uint64_t\<close>, and \<open>set\<close>
  is a store at that offset that returns 0, both without a check of the index; for an index
  inside the extents the offset is that of a whole element inside the data block, and the
  store of a \<open>double\<close> into an array of dtype \<open>'d'\<close> succeeds.
\<close>

theorem point_access_is_unchecked:
  assumes "wf_array a" "length idx = unat (nd a)"
  shows "ndarray_get_point a idx = Some (\<Sum>i<unat (nd a). the (strides a ! i) * idx ! i)
       \<and> ndarray_set_point_d a idx v =
           map_option (\<lambda>m. (0, a\<lparr>data := m\<rparr>))
             (store64 (data a) (unat (\<Sum>i<unat (nd a). the (strides a ! i) * idx ! i)) (Some v))
       \<and> (in_bounds a idx \<longrightarrow>
            unat (\<Sum>i<unat (nd a). the (strides a ! i) * idx ! i) + unat (calculate_type_size (dtype a))
              \<le> length (data a))
       \<and> (in_bounds a idx \<and> dtype a = tag_d \<longrightarrow> (\<exists>a'. ndarray_set_point_d a idx v = Some (0, a')))"
proof -
  let ?n = "unat (nd a)" and ?e = "calculate_type_size (dtype a)"
  let ?off = "\<Sum>i<?n. the (strides a ! i) * idx ! i"
  have wf: "1 \<le> ?n" "length (dimensions a) = ?n" "length (strides a) = ?n" "stride_invariant a"
    using assms(1) by (simp_all add: wf_array_def)
  have st: "strides a = map Some (row_major (dimensions a) ?e)"
    using wf by (intro stride_invariant_row_major) simp_all
  have "point_offset a idx = Some (\<Sum>i<?n. row_major (dimensions a) ?e ! i * idx ! i)"
    using st wf assms(2) by (intro point_offset_sum) simp_all
  moreover have "(\<Sum>i<?n. row_major (dimensions a) ?e ! i * idx ! i) = ?off"
    using wf by (intro sum.cong) (simp_all add: st)
  ultimately have po: "point_offset a idx = Some ?off" by simp
  have fit: "unat ?off + unat ?e \<le> length (data a)" if "in_bounds a idx"
    using offset_in_bounds[OF assms(1) that] po by auto
  have set: "ndarray_set_point_d a idx v =
           map_option (\<lambda>m. (0, a\<lparr>data := m\<rparr>)) (store64 (data a) (unat ?off) (Some v))"
    by (cases "store64 (data a) (unat ?off) (Some v)") (simp_all add: ndarray_set_point_d_def po)
  have "\<exists>a'. ndarray_set_point_d a idx v = Some (0, a')" if "in_bounds a idx" "dtype a = tag_d"
  proof -
    have "unat ?off + 8 \<le> length (data a)"
      using fit[OF that(1)] that(2) by (simp add: calculate_type_size_def)
    then obtain m where "store64 (data a) (unat ?off) (Some v) = Some m"
      using store_Some[of "unat ?off" "to_cells 8 (Some v)" "data a"] by (auto simp add: store64_def)
    then show ?thesis by (simp add: set)
  qed
  then show ?thesis using po fit set by (simp add: ndarray_get_point_def)
qed

text \<open>Index \<open>[1,2]\<close> of the 2 x 3 array: offset 40, the last 8 of the 48 bytes.\<close>

theorem point_access_is_unchecked_witness:
  "ndarray_get_point grid_23 [1, 2] = Some 40
   \<and> (\<exists>a'. ndarray_set_point_d grid_23 [1, 2] dbl_1 = Some (0, a'))
   \<and> unat (40 :: u64) + unat (calculate_type_size (dtype grid_23)) \<le> length (data grid_23)"
proof -
  have len: "length [1, 2 :: u64] = unat (nd grid_23)" by (simp add: grid_23_def)
  have off: "(\<Sum>i<unat (nd grid_23). the (strides grid_23 ! i) * [1, 2] ! i) = (40 :: u64)"
    by (simp add: grid_23_def sum_below_2)
  have dt: "dtype grid_23 = tag_d" by (simp add: grid_23_def)
  show ?thesis
    using point_access_is_unchecked[OF wf_grid_23 len, of dbl_1] in_bounds_grid_23 dt
    unfolding off by blast
qed

section \<open>The stride invariant and the rank\<close>

text \<open>
  C6. The claim: every array that \<open>create(shape, rank, dtype)\<close> returns for \<open>rank \<ge> 1\<close> has
  \<open>strides[rank-1] = elementSize\<close> and \<open>strides[i] = strides[i+1] * shape[i+1]\<close> for
  \<open>i < rank - 1\<close>. The rank is a \<open>uint32_t\<close> and the stride loop counts down with an \<open>int\<close>
  that starts at \<open>nd - 2\<close>. Up to the rank \<open>2^31\<close> the invariant holds (lemma
  \<open>ndarray_create_stride_invariant\<close>). For the rank \<open>2^31 + 1\<close> the loop starts at \<open>INT_MAX\<close> and
  its first index \<open>i + 1\<close> overflows (lemma \<open>ndarray_create_undefined_at_int_max\<close>). For the
  rank \<open>2^31 + 2 = 2147483650\<close> the start value \<open>2^31\<close> is the \<open>int\<close> \<open>-2^31\<close>: the loop does not
  run, and of the strides only the last one is assigned.
\<close>

theorem create_skips_stride_loop_for_huge_rank:
  "ndarray_create (replicate 2147483650 1) 2147483650 tag_d =
     Some (Ptr \<lparr> data = replicate 8 None, dimensions = replicate 2147483650 1,
                 strides = (replicate 2147483650 None)[2147483649 := Some 8],
                 nd = 2147483650, dtype = tag_d \<rparr>)"
  by (simp add: ndarray_create_def wr_def calculate_size_take calculate_type_size_def prod_list_replicate)

text \<open>The last two stride cells of that array, and the invariant.\<close>

theorem create_skips_stride_loop_for_huge_rank_witness:
  "(case ndarray_create (replicate 2147483650 1) 2147483650 tag_d of
      Some (Ptr a) \<Rightarrow> rd (strides a) 2147483649 = Some (Some 8) \<and> rd (strides a) 2147483648 = Some None
                       \<and> \<not> stride_invariant a
    | _ \<Rightarrow> False)"
proof -
  let ?a = "\<lparr> data = replicate 8 None, dimensions = replicate 2147483650 1,
             strides = (replicate 2147483650 None)[2147483649 := Some 8],
             nd = 2147483650, dtype = tag_d \<rparr>"
  have "\<not> stride_invariant ?a"
  proof
    assume "stride_invariant ?a"
    then have "\<exists>s d. rd (strides ?a) (Suc 0) = Some (Some s) \<and> rd (dimensions ?a) (Suc 0) = Some d \<and>
                  rd (strides ?a) 0 = Some (Some (s * d))"
      by (simp add: stride_invariant_def Let_def)
    then show False by (simp add: rd_def)
  qed
  then show ?thesis
    using create_skips_stride_loop_for_huge_rank by (simp add: rd_def)
qed

section \<open>The dtype tags in the operations\<close>

text \<open>
  C8, as claimed: every dtype-dependent operation handles the three named tags and fails
  with \<open>UnsupportedDtypeError\<close> for any other. The code has no such failure: \<open>ndarray_add\<close>
  on two arrays with the tag \<open>'x'\<close> returns a fresh array and writes none of its cells.
  It does the same for the integer tag \<open>'i'\<close>, which ndarray.h lists as a dtype: the sums
  that the claim names for \<open>[[1, 2]] + [[1, 2]]\<close> are not computed. The loops of
  \<open>ndarray_add\<close> have a branch for \<open>'d'\<close> and one for \<open>'f'\<close> and none for \<open>'i'\<close>, as those of
  the transposition (C9).
\<close>

theorem unknown_tag_is_accepted:
  "\<forall>fp. ndarray_add fp NULL tagx_row tagx_row =
          Some (Ptr \<lparr> data = [None, None], dimensions = [1, 2], strides = [Some 2, Some 1],
                      nd = 2, dtype = 120 \<rparr>)
      \<and> ndarray_add fp NULL int_row_12 int_row_12 =
          Some (Ptr \<lparr> data = replicate 16 None, dimensions = [1, 2], strides = [Some 16, Some 8],
                      nd = 2, dtype = tag_i \<rparr>)"
  by (simp add: ndarray_add_def tagx_row_def int_row_12_def run_simps)

text \<open>
  C8, as amended, for well-formed arrays \<open>a\<close> and \<open>b\<close> of one dtype (\<open>wf_array\<close>: a rank of at
  least 1, \<open>rank\<close> extents, row-major strides and a data block of \<open>product(shape) *
  elementSize\<close> bytes, a size that a \<open>size_t\<close> holds), in the order of the theorem.

  \<^item> \<open>set\<close> handles the three named tags: at an index inside the extents the setter of the
    dtype stores the value and returns 0, and \<open>ndarray_set_point\<close> stores \<open>elementSize\<close>
    bytes of the caller's block for every tag and returns 0.

  \<^item> For rank 2 and equal shapes, \<open>add\<close>, \<open>subtract\<close> and \<open>compare\<close> (with the operator \<open>>\<close>,
    \<open><\<close> or \<open>=\<close>) handle the tags \<open>'d'\<close> and \<open>'f'\<close>: every cell of the fresh output is the sum,
    the difference or the truth value, an \<open>int\<close>, for the operands' cells. For a tag other than the
    three named ones \<open>add\<close> and \<open>subtract\<close> return the output array, the fresh one or the
    caller's \<open>out\<close>, with no cell written.

  \<^item> For rank 2, \<open>dot\<close> and \<open>broadcastAdd\<close> handle the tags \<open>'d'\<close> and \<open>'f'\<close> when the fresh
    output, which has the extents of \<open>a\<close>, has room for the result: \<open>b\<close> has no more columns
    than \<open>a\<close> for \<open>dot\<close>, no more rows and no more columns for \<open>broadcastAdd\<close>. Cell
    \<open>i * n + j\<close> of the product of an \<open>m x k\<close> and a \<open>k x n\<close> matrix is the sum of products,
    accumulated in \<open>double\<close>; a cell of \<open>broadcastAdd\<close> is the sum of the operands padded
    with \<open>0.0\<close>. For a tag other than the three named ones \<open>dot\<close> returns the output array
    with no cell written.

  \<^item> No tag makes an operation fail: for operands that pass its rank, shape, axis and
    operator checks, none of \<open>add\<close>, \<open>subtract\<close>, \<open>compare\<close>, \<open>dot\<close>, \<open>broadcastAdd\<close> and
    \<open>concat\<close> returns \<open>NULL\<close>, whatever the tag and whatever the output passed.

  Nothing is said of the tag \<open>'i'\<close> in the arithmetic, nor of the cells that \<open>concat\<close>
  copies (C2).
\<close>

theorem operations_dispatch_on_the_tag:
  assumes "wf_array a" "wf_array b" "dtype b = dtype a"
  shows "(in_bounds a idx \<longrightarrow>
            (dtype a = tag_d \<longrightarrow> stored idx (ndarray_set_point_d a idx v) (to_cells 8 (Some v)))
          \<and> (dtype a = tag_f \<longrightarrow> stored idx (ndarray_set_point_f a idx w) (to_cells 4 (Some w)))
          \<and> (dtype a = tag_i \<longrightarrow> stored idx (ndarray_set_point_u64 a idx v) (to_cells 8 (Some v)))
          \<and> (unat (calculate_type_size (dtype a)) \<le> length bs \<longrightarrow>
               stored idx (ndarray_set_point a idx bs) (take (unat (calculate_type_size (dtype a))) bs)))
       \<and> (nd a = 2 \<and> nd b = 2 \<and> dimensions b = dimensions a \<longrightarrow>
            (dtype a = tag_d \<longrightarrow>
               (\<exists>r. ndarray_add fp NULL a b = Some (Ptr r) \<and> unwritten r = unwritten a
                     \<and> elementwise_d (d_add fp) a b r)
             \<and> (\<exists>r. ndarray_subtract fp NULL a b = Some (Ptr r) \<and> unwritten r = unwritten a
                     \<and> elementwise_d (d_sub fp) a b r))
          \<and> (dtype a = tag_f \<longrightarrow>
               (\<exists>r. ndarray_add fp NULL a b = Some (Ptr r) \<and> unwritten r = unwritten a
                     \<and> elementwise_f (f_add fp) a b r)
             \<and> (\<exists>r. ndarray_subtract fp NULL a b = Some (Ptr r) \<and> unwritten r = unwritten a
                     \<and> elementwise_f (f_sub fp) a b r))
          \<and> ((dtype a = tag_d \<or> dtype a = tag_f) \<and> valid_op op \<longrightarrow>
               (\<exists>r. ndarray_compare fp NULL a b op = Some (Ptr r) \<and> unwritten r = unwritten a
                     \<and> compared fp op a b r))
          \<and> (other_tag (dtype a) \<longrightarrow>
               ndarray_add fp NULL a b = Some (Ptr (unwritten a))
             \<and> ndarray_add fp (Ptr out) a b = Some (Ptr out)
             \<and> ndarray_subtract fp NULL a b = Some (Ptr (unwritten a))
             \<and> ndarray_subtract fp (Ptr out) a b = Some (Ptr out)))
       \<and> (nd a = 2 \<and> nd b = 2 \<longrightarrow>
            ((dtype a = tag_d \<or> dtype a = tag_f)
               \<and> dimensions a ! 1 = dimensions b ! 0 \<and> dimensions b ! 1 \<le> dimensions a ! 1 \<longrightarrow>
               (\<exists>r. ndarray_dot fp NULL a b = Some (Ptr r) \<and> unwritten r = unwritten a
                     \<and> matrix_product fp a b r))
          \<and> ((dtype a = tag_d \<or> dtype a = tag_f)
               \<and> dimensions b ! 0 \<le> dimensions a ! 0 \<and> dimensions b ! 1 \<le> dimensions a ! 1 \<longrightarrow>
               (\<exists>r. ndarray_broadcast_add fp NULL a b = Some (Ptr r) \<and> unwritten r = unwritten a
                     \<and> padded_sum fp a b r))
          \<and> (other_tag (dtype a) \<and> dimensions a ! 1 = dimensions b ! 0 \<longrightarrow>
               ndarray_dot fp NULL a b = Some (Ptr (unwritten a))
             \<and> ndarray_dot fp (Ptr out) a b = Some (Ptr out)))
       \<and> (nd b = nd a \<and> dimensions b = dimensions a \<longrightarrow>
            ndarray_add fp result a b \<noteq> Some NULL
          \<and> ndarray_subtract fp result a b \<noteq> Some NULL
          \<and> (valid_op op \<longrightarrow> ndarray_compare fp result a b op \<noteq> Some NULL))
       \<and> (nd a = 2 \<and> nd b = 2 \<longrightarrow>
            (dimensions a ! 1 = dimensions b ! 0 \<longrightarrow> ndarray_dot fp result a b \<noteq> Some NULL)
          \<and> ndarray_broadcast_add fp result a b \<noteq> Some NULL)
       \<and> (nd b = nd a \<and> axis < nd a
            \<and> (\<forall>i < unat (nd a). i \<noteq> unat axis \<longrightarrow> dimensions b ! i = dimensions a ! i) \<longrightarrow>
            ndarray_concat (Ptr a) (Ptr b) axis \<noteq> Some NULL)"
proof -
  have la: "length (dimensions a) = unat (nd a)" and lb: "length (dimensions b) = unat (nd b)"
    using assms(1,2) by (simp_all add: wf_array_def)
  have fresh: "ndarray_create (dimensions a) (nd a) (dtype a) = Some (Ptr (unwritten a))" if "nd a = 2"
    using ndarray_create_like[OF assms(1)] that by (simp add: unwritten_def)
  have setters: "in_bounds a idx \<longrightarrow>
            (dtype a = tag_d \<longrightarrow> stored idx (ndarray_set_point_d a idx v) (to_cells 8 (Some v)))
          \<and> (dtype a = tag_f \<longrightarrow> stored idx (ndarray_set_point_f a idx w) (to_cells 4 (Some w)))
          \<and> (dtype a = tag_i \<longrightarrow> stored idx (ndarray_set_point_u64 a idx v) (to_cells 8 (Some v)))
          \<and> (unat (calculate_type_size (dtype a)) \<le> length bs \<longrightarrow>
               stored idx (ndarray_set_point a idx bs) (take (unat (calculate_type_size (dtype a))) bs))"
  proof (rule impI)
    assume ib: "in_bounds a idx"
    show "(dtype a = tag_d \<longrightarrow> stored idx (ndarray_set_point_d a idx v) (to_cells 8 (Some v)))
          \<and> (dtype a = tag_f \<longrightarrow> stored idx (ndarray_set_point_f a idx w) (to_cells 4 (Some w)))
          \<and> (dtype a = tag_i \<longrightarrow> stored idx (ndarray_set_point_u64 a idx v) (to_cells 8 (Some v)))
          \<and> (unat (calculate_type_size (dtype a)) \<le> length bs \<longrightarrow>
               stored idx (ndarray_set_point a idx bs) (take (unat (calculate_type_size (dtype a))) bs))"
      by (intro conjI impI) (erule setters_store[OF assms(1) ib])+
  qed
  have elementwise: "nd a = 2 \<and> nd b = 2 \<and> dimensions b = dimensions a \<longrightarrow>
            (dtype a = tag_d \<longrightarrow>
               (\<exists>r. ndarray_add fp NULL a b = Some (Ptr r) \<and> unwritten r = unwritten a
                     \<and> elementwise_d (d_add fp) a b r)
             \<and> (\<exists>r. ndarray_subtract fp NULL a b = Some (Ptr r) \<and> unwritten r = unwritten a
                     \<and> elementwise_d (d_sub fp) a b r))
          \<and> (dtype a = tag_f \<longrightarrow>
               (\<exists>r. ndarray_add fp NULL a b = Some (Ptr r) \<and> unwritten r = unwritten a
                     \<and> elementwise_f (f_add fp) a b r)
             \<and> (\<exists>r. ndarray_subtract fp NULL a b = Some (Ptr r) \<and> unwritten r = unwritten a
                     \<and> elementwise_f (f_sub fp) a b r))
          \<and> ((dtype a = tag_d \<or> dtype a = tag_f) \<and> valid_op op \<longrightarrow>
               (\<exists>r. ndarray_compare fp NULL a b op = Some (Ptr r) \<and> unwritten r = unwritten a
                     \<and> compared fp op a b r))
          \<and> (other_tag (dtype a) \<longrightarrow>
               ndarray_add fp NULL a b = Some (Ptr (unwritten a))
             \<and> ndarray_add fp (Ptr out) a b = Some (Ptr out)
             \<and> ndarray_subtract fp NULL a b = Some (Ptr (unwritten a))
             \<and> ndarray_subtract fp (Ptr out) a b = Some (Ptr out))"
  proof (rule impI, (erule conjE)+)
    assume r: "nd a = 2" "nd b = 2" and ds: "dimensions b = dimensions a"
    have d: "dtype a = tag_d \<longrightarrow>
               (\<exists>r. ndarray_add fp NULL a b = Some (Ptr r) \<and> unwritten r = unwritten a
                     \<and> elementwise_d (d_add fp) a b r)
             \<and> (\<exists>r. ndarray_subtract fp NULL a b = Some (Ptr r) \<and> unwritten r = unwritten a
                     \<and> elementwise_d (d_sub fp) a b r)"
    proof (rule impI)
      assume t: "dtype a = tag_d"
      then have tb: "dtype b = tag_d" using assms(3) by simp
      from ndarray_add_d[OF assms(1,2) r t tb ds, of fp] obtain x where
        "ndarray_add fp NULL a b = Some (Ptr x)" "unwritten x = unwritten a" "elementwise_d (d_add fp) a b x"
        unfolding elementwise_d_def using unwritten_same by blast
      moreover from ndarray_subtract_d[OF assms(1,2) r t tb ds, of fp] obtain y where
        "ndarray_subtract fp NULL a b = Some (Ptr y)" "unwritten y = unwritten a" "elementwise_d (d_sub fp) a b y"
        unfolding elementwise_d_def using unwritten_same by blast
      ultimately show "(\<exists>r. ndarray_add fp NULL a b = Some (Ptr r) \<and> unwritten r = unwritten a
                     \<and> elementwise_d (d_add fp) a b r)
             \<and> (\<exists>r. ndarray_subtract fp NULL a b = Some (Ptr r) \<and> unwritten r = unwritten a
                     \<and> elementwise_d (d_sub fp) a b r)"
        by blast
    qed
    have f: "dtype a = tag_f \<longrightarrow>
               (\<exists>r. ndarray_add fp NULL a b = Some (Ptr r) \<and> unwritten r = unwritten a
                     \<and> elementwise_f (f_add fp) a b r)
             \<and> (\<exists>r. ndarray_subtract fp NULL a b = Some (Ptr r) \<and> unwritten r = unwritten a
                     \<and> elementwise_f (f_sub fp) a b r)"
    proof (rule impI)
      assume t: "dtype a = tag_f"
      then have tb: "dtype b = tag_f" using assms(3) by simp
      from ndarray_add_f[OF assms(1,2) r t tb ds, of fp] obtain x where
        "ndarray_add fp NULL a b = Some (Ptr x)" "unwritten x = unwritten a" "elementwise_f (f_add fp) a b x"
        unfolding elementwise_f_def using unwritten_same by blast
      moreover from ndarray_subtract_f[OF assms(1,2) r t tb ds, of fp] obtain y where
        "ndarray_subtract fp NULL a b = Some (Ptr y)" "unwritten y = unwritten a" "elementwise_f (f_sub fp) a b y"
        unfolding elementwise_f_def using unwritten_same by blast
      ultimately show "(\<exists>r. ndarray_add fp NULL a b = Some (Ptr r) \<and> unwritten r = unwritten a
                     \<and> elementwise_f (f_add fp) a b r)
             \<and> (\<exists>r. ndarray_subtract fp NULL a b = Some (Ptr r) \<and> unwritten r = unwritten a
                     \<and> elementwise_f (f_sub fp) a b r)"
        by blast
    qed
    have c: "(dtype a = tag_d \<or> dtype a = tag_f) \<and> valid_op op \<longrightarrow>
               (\<exists>r. ndarray_compare fp NULL a b op = Some (Ptr r) \<and> unwritten r = unwritten a
                     \<and> compared fp op a b r)"
    proof (rule impI, erule conjE)
      assume t: "dtype a = tag_d \<or> dtype a = tag_f" and v: "valid_op op"
      from ndarray_compare_df[OF assms(1,2) r assms(3) ds t v, of fp]
      show "(\<exists>r. ndarray_compare fp NULL a b op = Some (Ptr r) \<and> unwritten r = unwritten a
                     \<and> compared fp op a b r)"
        using unwritten_same by blast
    qed
    have o: "other_tag (dtype a) \<longrightarrow>
               ndarray_add fp NULL a b = Some (Ptr (unwritten a))
             \<and> ndarray_add fp (Ptr out) a b = Some (Ptr out)
             \<and> ndarray_subtract fp NULL a b = Some (Ptr (unwritten a))
             \<and> ndarray_subtract fp (Ptr out) a b = Some (Ptr out)"
    proof (rule impI)
      assume t: "other_tag (dtype a)"
      show "ndarray_add fp NULL a b = Some (Ptr (unwritten a))
             \<and> ndarray_add fp (Ptr out) a b = Some (Ptr out)
             \<and> ndarray_subtract fp NULL a b = Some (Ptr (unwritten a))
             \<and> ndarray_subtract fp (Ptr out) a b = Some (Ptr out)"
        using add_other_tag[OF t _ assms(3) ds la, of fp] r fresh by simp
    qed
    show "(dtype a = tag_d \<longrightarrow>
               (\<exists>r. ndarray_add fp NULL a b = Some (Ptr r) \<and> unwritten r = unwritten a
                     \<and> elementwise_d (d_add fp) a b r)
             \<and> (\<exists>r. ndarray_subtract fp NULL a b = Some (Ptr r) \<and> unwritten r = unwritten a
                     \<and> elementwise_d (d_sub fp) a b r))
          \<and> (dtype a = tag_f \<longrightarrow>
               (\<exists>r. ndarray_add fp NULL a b = Some (Ptr r) \<and> unwritten r = unwritten a
                     \<and> elementwise_f (f_add fp) a b r)
             \<and> (\<exists>r. ndarray_subtract fp NULL a b = Some (Ptr r) \<and> unwritten r = unwritten a
                     \<and> elementwise_f (f_sub fp) a b r))
          \<and> ((dtype a = tag_d \<or> dtype a = tag_f) \<and> valid_op op \<longrightarrow>
               (\<exists>r. ndarray_compare fp NULL a b op = Some (Ptr r) \<and> unwritten r = unwritten a
                     \<and> compared fp op a b r))
          \<and> (other_tag (dtype a) \<longrightarrow>
               ndarray_add fp NULL a b = Some (Ptr (unwritten a))
             \<and> ndarray_add fp (Ptr out) a b = Some (Ptr out)
             \<and> ndarray_subtract fp NULL a b = Some (Ptr (unwritten a))
             \<and> ndarray_subtract fp (Ptr out) a b = Some (Ptr out))"
      by (rule conjI[OF d conjI[OF f conjI[OF c o]]])
  qed
  have matrix: "nd a = 2 \<and> nd b = 2 \<longrightarrow>
            ((dtype a = tag_d \<or> dtype a = tag_f)
               \<and> dimensions a ! 1 = dimensions b ! 0 \<and> dimensions b ! 1 \<le> dimensions a ! 1 \<longrightarrow>
               (\<exists>r. ndarray_dot fp NULL a b = Some (Ptr r) \<and> unwritten r = unwritten a
                     \<and> matrix_product fp a b r))
          \<and> ((dtype a = tag_d \<or> dtype a = tag_f)
               \<and> dimensions b ! 0 \<le> dimensions a ! 0 \<and> dimensions b ! 1 \<le> dimensions a ! 1 \<longrightarrow>
               (\<exists>r. ndarray_broadcast_add fp NULL a b = Some (Ptr r) \<and> unwritten r = unwritten a
                     \<and> padded_sum fp a b r))
          \<and> (other_tag (dtype a) \<and> dimensions a ! 1 = dimensions b ! 0 \<longrightarrow>
               ndarray_dot fp NULL a b = Some (Ptr (unwritten a))
             \<and> ndarray_dot fp (Ptr out) a b = Some (Ptr out))"
  proof (rule impI, erule conjE)
    assume r: "nd a = 2" "nd b = 2"
    have p: "(dtype a = tag_d \<or> dtype a = tag_f)
               \<and> dimensions a ! 1 = dimensions b ! 0 \<and> dimensions b ! 1 \<le> dimensions a ! 1 \<longrightarrow>
               (\<exists>r. ndarray_dot fp NULL a b = Some (Ptr r) \<and> unwritten r = unwritten a
                     \<and> matrix_product fp a b r)"
    proof (rule impI, (erule conjE)+)
      assume t: "dtype a = tag_d \<or> dtype a = tag_f"
        and i: "dimensions a ! 1 = dimensions b ! 0" and c: "dimensions b ! 1 \<le> dimensions a ! 1"
      show "(\<exists>r. ndarray_dot fp NULL a b = Some (Ptr r) \<and> unwritten r = unwritten a
                     \<and> matrix_product fp a b r)"
      proof (cases "dtype a = tag_d")
        case True
        from ndarray_dot_d[OF assms(1,2) r assms(3) True i c, of fp] show ?thesis
          using unwritten_same by blast
      next
        case False
        then have "dtype a = tag_f" using t by simp
        from ndarray_dot_f[OF assms(1,2) r assms(3) this i c, of fp] show ?thesis
          using unwritten_same by blast
      qed
    qed
    have s: "(dtype a = tag_d \<or> dtype a = tag_f)
               \<and> dimensions b ! 0 \<le> dimensions a ! 0 \<and> dimensions b ! 1 \<le> dimensions a ! 1 \<longrightarrow>
               (\<exists>r. ndarray_broadcast_add fp NULL a b = Some (Ptr r) \<and> unwritten r = unwritten a
                     \<and> padded_sum fp a b r)"
    proof (rule impI, (erule conjE)+)
      assume t: "dtype a = tag_d \<or> dtype a = tag_f"
        and c: "dimensions b ! 0 \<le> dimensions a ! 0" "dimensions b ! 1 \<le> dimensions a ! 1"
      from ndarray_broadcast_add_df[OF assms(1,2) r assms(3) t c, of fp]
      show "(\<exists>r. ndarray_broadcast_add fp NULL a b = Some (Ptr r) \<and> unwritten r = unwritten a
                     \<and> padded_sum fp a b r)"
        using unwritten_same by blast
    qed
    have o: "other_tag (dtype a) \<and> dimensions a ! 1 = dimensions b ! 0 \<longrightarrow>
               ndarray_dot fp NULL a b = Some (Ptr (unwritten a))
             \<and> ndarray_dot fp (Ptr out) a b = Some (Ptr out)"
    proof (rule impI, erule conjE)
      assume t: "other_tag (dtype a)" and i: "dimensions a ! 1 = dimensions b ! 0"
      show "ndarray_dot fp NULL a b = Some (Ptr (unwritten a))
             \<and> ndarray_dot fp (Ptr out) a b = Some (Ptr out)"
        using dot_other_tag[OF t r assms(3) _ _ i, of fp] la lb r fresh by simp
    qed
    show "((dtype a = tag_d \<or> dtype a = tag_f)
               \<and> dimensions a ! 1 = dimensions b ! 0 \<and> dimensions b ! 1 \<le> dimensions a ! 1 \<longrightarrow>
               (\<exists>r. ndarray_dot fp NULL a b = Some (Ptr r) \<and> unwritten r = unwritten a
                     \<and> matrix_product fp a b r))
          \<and> ((dtype a = tag_d \<or> dtype a = tag_f)
               \<and> dimensions b ! 0 \<le> dimensions a ! 0 \<and> dimensions b ! 1 \<le> dimensions a ! 1 \<longrightarrow>
               (\<exists>r. ndarray_broadcast_add fp NULL a b = Some (Ptr r) \<and> unwritten r = unwritten a
                     \<and> padded_sum fp a b r))
          \<and> (other_tag (dtype a) \<and> dimensions a ! 1 = dimensions b ! 0 \<longrightarrow>
               ndarray_dot fp NULL a b = Some (Ptr (unwritten a))
             \<and> ndarray_dot fp (Ptr out) a b = Some (Ptr out))"
      by (rule conjI[OF p conjI[OF s o]])
  qed
  have same_shape: "nd b = nd a \<and> dimensions b = dimensions a \<longrightarrow>
            ndarray_add fp result a b \<noteq> Some NULL
          \<and> ndarray_subtract fp result a b \<noteq> Some NULL
          \<and> (valid_op op \<longrightarrow> ndarray_compare fp result a b op \<noteq> Some NULL)"
  proof (rule impI, erule conjE)
    assume r: "nd b = nd a" and ds: "dimensions b = dimensions a"
    have na: "ndarray_add fp result a b \<noteq> Some NULL"
      and ns: "ndarray_subtract fp result a b \<noteq> Some NULL"
      using r assms(3) ds la by (simp_all add: arithmetic_not_NULL)
    have n: "valid_op op \<longrightarrow> ndarray_compare fp result a b op \<noteq> Some NULL"
    proof (rule impI)
      assume v: "valid_op op"
      show "ndarray_compare fp result a b op \<noteq> Some NULL"
        using r assms(3) ds la v by (intro compare_not_NULL) simp_all
    qed
    show "ndarray_add fp result a b \<noteq> Some NULL
          \<and> ndarray_subtract fp result a b \<noteq> Some NULL
          \<and> (valid_op op \<longrightarrow> ndarray_compare fp result a b op \<noteq> Some NULL)"
      by (rule conjI[OF na conjI[OF ns n]])
  qed
  have matrices: "nd a = 2 \<and> nd b = 2 \<longrightarrow>
            (dimensions a ! 1 = dimensions b ! 0 \<longrightarrow> ndarray_dot fp result a b \<noteq> Some NULL)
          \<and> ndarray_broadcast_add fp result a b \<noteq> Some NULL"
  proof (rule impI, erule conjE)
    assume r: "nd a = 2" "nd b = 2"
    have nd: "dimensions a ! 1 = dimensions b ! 0 \<longrightarrow> ndarray_dot fp result a b \<noteq> Some NULL"
      using r assms(3) by (simp add: dot_not_NULL)
    have n: "ndarray_broadcast_add fp result a b \<noteq> Some NULL"
      using r assms(3) by (rule broadcast_add_not_NULL)
    show "(dimensions a ! 1 = dimensions b ! 0 \<longrightarrow> ndarray_dot fp result a b \<noteq> Some NULL)
          \<and> ndarray_broadcast_add fp result a b \<noteq> Some NULL"
      by (rule conjI[OF nd n])
  qed
  have concat: "nd b = nd a \<and> axis < nd a
            \<and> (\<forall>i < unat (nd a). i \<noteq> unat axis \<longrightarrow> dimensions b ! i = dimensions a ! i) \<longrightarrow>
            ndarray_concat (Ptr a) (Ptr b) axis \<noteq> Some NULL"
  proof (rule impI, (erule conjE)+)
    assume "nd b = nd a" "axis < nd a"
      "\<forall>i < unat (nd a). i \<noteq> unat axis \<longrightarrow> dimensions b ! i = dimensions a ! i"
    then show "ndarray_concat (Ptr a) (Ptr b) axis \<noteq> Some NULL"
      using assms(3) la lb by (intro concat_not_NULL) simp_all
  qed
  show ?thesis
    by (rule conjI[OF setters conjI[OF elementwise conjI[OF matrix conjI[OF same_shape conjI[OF matrices concat]]]]])
qed

text \<open>
  With the tag \<open>'d'\<close>: \<open>[[1.0, 2.0]] + [[3.0, 4.0]]\<close>, \<open>[[1.0, 2.0]] < [[3.0, 4.0]]\<close>, the product
  of \<open>[[1.0, 2.0]]\<close> and \<open>[[3.0], [4.0]]\<close>, the sum of \<open>[[1.0, 2.0]]\<close> and the padded \<open>[[1.0]]\<close>,
  and the store of 1.0 at index \<open>[1,2]\<close> of the 2 x 3 array. With the tag \<open>'f'\<close>: the difference
  of \<open>[[1.0, 2.0]]\<close> and itself. With the tag \<open>'i'\<close>: the store of 7 at index \<open>[0,1]\<close>. With the
  tag \<open>'x'\<close>: no operation returns \<open>NULL\<close>.
\<close>

theorem operations_dispatch_on_the_tag_witness:
  "\<forall>fp. (\<exists>r. ndarray_add fp NULL row_12 row_34 = Some (Ptr r)
               \<and> get_d (data r) 0 = Some (Some (d_add fp dbl_1 dbl_3))
               \<and> get_d (data r) 1 = Some (Some (d_add fp dbl_2 dbl_4)))
      \<and> (\<exists>r. ndarray_subtract fp NULL flt_row_12 flt_row_12 = Some (Ptr r)
               \<and> get_f (data r) 0 = Some (Some (f_sub fp flt_1 flt_1))
               \<and> get_f (data r) 1 = Some (Some (f_sub fp flt_2 flt_2)))
      \<and> (\<exists>r. ndarray_compare fp NULL row_12 row_34 op_lt = Some (Ptr r)
               \<and> get_f (data r) 0 = Some (Some (truth (d_lt fp dbl_1 dbl_3)))
               \<and> get_f (data r) 1 = Some (Some (truth (d_lt fp dbl_2 dbl_4))))
      \<and> (\<exists>r. ndarray_dot fp NULL row_12 col_34 = Some (Ptr r)
               \<and> get_d (data r) 0
                   = Some (Some (d_add fp (d_add fp 0 (d_mul fp dbl_1 dbl_3)) (d_mul fp dbl_2 dbl_4))))
      \<and> (\<exists>r. ndarray_broadcast_add fp NULL row_12 cell_1 = Some (Ptr r)
               \<and> get_d (data r) 0 = Some (Some (d_add fp dbl_1 dbl_1))
               \<and> get_d (data r) 1 = Some (Some (d_add fp dbl_2 0)))
      \<and> ndarray_add fp NULL tagx_row tagx_row = Some (Ptr (unwritten tagx_row))
      \<and> ndarray_compare fp NULL tagx_row tagx_row op_gt \<noteq> Some NULL
      \<and> ndarray_broadcast_add fp NULL tagx_row tagx_row \<noteq> Some NULL
      \<and> ndarray_concat (Ptr tagx_row) (Ptr tagx_row) 0 \<noteq> Some NULL
      \<and> stored [1, 2] (ndarray_set_point_d grid_23 [1, 2] dbl_1) (to_cells 8 (Some dbl_1))
      \<and> stored [0, 1] (ndarray_set_point_u64 int_row_12 [0, 1] 7) (to_cells 8 (Some (7 :: u64)))"
proof
  fix fp
  have a0: "get_d (data row_12) 0 = Some (Some dbl_1)" "get_d (data row_12) 1 = Some (Some dbl_2)"
    and b0: "get_d (data row_34) 0 = Some (Some dbl_3)" "get_d (data row_34) 1 = Some (Some dbl_4)"
    and c0: "get_d (data col_34) 0 = Some (Some dbl_3)" "get_d (data col_34) 1 = Some (Some dbl_4)"
    and e0: "get_d (data cell_1) 0 = Some (Some dbl_1)"
    by (simp_all add: row_12_def row_34_def col_34_def cell_1_def get_d_def load64_def load_def from_cells_def)
  have h0: "get_f (data flt_row_12) 0 = Some (Some flt_1)" "get_f (data flt_row_12) 1 = Some (Some flt_2)"
    by (simp_all add: flt_row_12_def get_f_def load32_def load_def from_cells_def)
  have n: "prod_list (map unat (dimensions row_12)) = 2" "prod_list (map unat (dimensions flt_row_12)) = 2"
    by (simp_all add: row_12_def flt_row_12_def)
  have f: "nd row_12 = 2" "nd row_34 = 2" "dtype row_34 = dtype row_12"
    "dimensions row_34 = dimensions row_12" "dtype row_12 = tag_d"
    "nd col_34 = 2" "dtype col_34 = dtype row_12" "nd cell_1 = 2" "dtype cell_1 = dtype row_12"
    by (simp_all add: row_12_def row_34_def col_34_def cell_1_def)
  have v: "valid_op op_lt" "valid_op op_gt" by (simp_all add: valid_op_def)
  note doubles = operations_dispatch_on_the_tag[OF wf_row_12 wf_row_34 f(3), of _ _ _ _ fp op_lt,
      THEN conjunct2, THEN conjunct1, rule_format, OF conjI[OF f(1) conjI[OF f(2) f(4)]]]
  have "\<exists>r. ndarray_add fp NULL row_12 row_34 = Some (Ptr r) \<and> elementwise_d (d_add fp) row_12 row_34 r"
    using doubles f(5) by blast
  then obtain r1 where r1: "ndarray_add fp NULL row_12 row_34 = Some (Ptr r1)"
    and el: "\<And>i. i < 2 \<Longrightarrow> \<exists>x y. get_d (data row_12) (of_nat i) = Some x \<and> get_d (data row_34) (of_nat i) = Some y
             \<and> get_d (data r1) (of_nat i) = Some (lift2 (d_add fp) x y)"
    unfolding elementwise_d_def n by blast
  have add: "get_d (data r1) 0 = Some (Some (d_add fp dbl_1 dbl_3))"
    "get_d (data r1) 1 = Some (Some (d_add fp dbl_2 dbl_4))"
    using el[of 0] el[of 1] a0 b0 by (simp_all add: lift2_def)
  have k: "nd flt_row_12 = 2" "dtype flt_row_12 = tag_f" by (simp_all add: flt_row_12_def)
  note floats = operations_dispatch_on_the_tag[OF wf_flt_row_12 wf_flt_row_12 refl, of _ _ _ _ fp,
      THEN conjunct2, THEN conjunct1, rule_format, OF conjI[OF k(1) conjI[OF k(1) refl]]]
  have "\<exists>r. ndarray_subtract fp NULL flt_row_12 flt_row_12 = Some (Ptr r)
            \<and> elementwise_f (f_sub fp) flt_row_12 flt_row_12 r"
    using floats k(2) by blast
  then obtain r5 where r5: "ndarray_subtract fp NULL flt_row_12 flt_row_12 = Some (Ptr r5)"
    and ef: "\<And>i. i < 2 \<Longrightarrow> \<exists>x y. get_f (data flt_row_12) (of_nat i) = Some x \<and> get_f (data flt_row_12) (of_nat i) = Some y
             \<and> get_f (data r5) (of_nat i) = Some (lift2 (f_sub fp) x y)"
    unfolding elementwise_f_def n by blast
  have sub: "get_f (data r5) 0 = Some (Some (f_sub fp flt_1 flt_1))"
    "get_f (data r5) 1 = Some (Some (f_sub fp flt_2 flt_2))"
    using ef[of 0] ef[of 1] h0 by (simp_all add: lift2_def)
  have "\<exists>r. ndarray_compare fp NULL row_12 row_34 op_lt = Some (Ptr r) \<and> compared fp op_lt row_12 row_34 r"
    using doubles f(5) v(1) by blast
  then obtain r2 where r2: "ndarray_compare fp NULL row_12 row_34 op_lt = Some (Ptr r2)"
    and cm: "\<And>i. i < 2 \<Longrightarrow> \<exists>x y. operand_at fp row_12 (of_nat i) = Some x \<and> operand_at fp row_34 (of_nat i) = Some y
             \<and> get_f (data r2) (of_nat i) = Some (lift2 (\<lambda>x y. truth (comparison fp op_lt x y)) x y)"
    unfolding compared_def n by blast
  have cmp: "get_f (data r2) 0 = Some (Some (truth (d_lt fp dbl_1 dbl_3)))"
    "get_f (data r2) 1 = Some (Some (truth (d_lt fp dbl_2 dbl_4)))"
    using cm[of 0] cm[of 1] a0 b0 f(3,5) by (simp_all add: lift2_def operand_at_def comparison_def)
  note product = operations_dispatch_on_the_tag[OF wf_row_12 wf_col_34 f(7), of _ _ _ _ fp,
      THEN conjunct2, THEN conjunct2, THEN conjunct1, rule_format, OF conjI[OF f(1) f(6)]]
  have "\<exists>r. ndarray_dot fp NULL row_12 col_34 = Some (Ptr r) \<and> matrix_product fp row_12 col_34 r"
    using product f(5) by (simp add: row_12_def col_34_def) blast
  then obtain r3 where r3: "ndarray_dot fp NULL row_12 col_34 = Some (Ptr r3)"
    and mp: "get_d (data r3) 0 = Some (sum_of_products fp row_12 col_34 0 0)"
    by (auto simp add: matrix_product_def row_12_def col_34_def)
  have "sum_of_products fp row_12 col_34 0 0
          = Some (d_add fp (d_add fp 0 (d_mul fp dbl_1 dbl_3)) (d_mul fp dbl_2 dbl_4))"
    using a0 c0 by (simp add: sum_of_products_def cell_d_def lift2_def upt_rec row_12_def col_34_def)
  then have dot: "get_d (data r3) 0
                   = Some (Some (d_add fp (d_add fp 0 (d_mul fp dbl_1 dbl_3)) (d_mul fp dbl_2 dbl_4)))"
    using mp by simp
  note padding = operations_dispatch_on_the_tag[OF wf_row_12 wf_cell_1 f(9), of _ _ _ _ fp,
      THEN conjunct2, THEN conjunct2, THEN conjunct1, rule_format, OF conjI[OF f(1) f(8)]]
  have "\<exists>r. ndarray_broadcast_add fp NULL row_12 cell_1 = Some (Ptr r) \<and> padded_sum fp row_12 cell_1 r"
    using padding f(5) by (simp add: row_12_def cell_1_def) blast
  then obtain r4 where r4: "ndarray_broadcast_add fp NULL row_12 cell_1 = Some (Ptr r4)"
    and ps: "\<And>j. j < 2 \<Longrightarrow> get_d (data r4) (of_nat j)
                = Some (lift2 (d_add fp) (padded fp row_12 0 j) (padded fp cell_1 0 j))"
    by (auto simp add: padded_sum_def row_12_def cell_1_def)
  have pad: "padded fp row_12 0 0 = Some dbl_1" "padded fp row_12 0 1 = Some dbl_2"
    "padded fp cell_1 0 0 = Some dbl_1" "padded fp cell_1 0 1 = Some 0"
    using a0 e0 by (simp_all add: padded_def entry_def cell_d_def row_12_def cell_1_def)
  have bc: "get_d (data r4) 0 = Some (Some (d_add fp dbl_1 dbl_1))"
    "get_d (data r4) 1 = Some (Some (d_add fp dbl_2 0))"
    using ps[of 0] ps[of 1] pad by (simp_all add: lift2_def)
  have g: "nd tagx_row = 2" "other_tag (dtype tagx_row)" "(0 :: u32) < nd tagx_row"
    by (simp_all add: tagx_row_def other_tag_def)
  note unknown = operations_dispatch_on_the_tag[OF wf_tagx_row wf_tagx_row refl, of _ _ _ _ fp op_gt _ NULL 0,
      THEN conjunct2]
  have x1: "ndarray_add fp NULL tagx_row tagx_row = Some (Ptr (unwritten tagx_row))"
    using unknown[THEN conjunct1] g by blast
  have x2: "ndarray_compare fp NULL tagx_row tagx_row op_gt \<noteq> Some NULL"
    using unknown[THEN conjunct2, THEN conjunct2, THEN conjunct1] v(2) by blast
  have x3: "ndarray_broadcast_add fp NULL tagx_row tagx_row \<noteq> Some NULL"
    using unknown[THEN conjunct2, THEN conjunct2, THEN conjunct2, THEN conjunct1] g by blast
  have x4: "ndarray_concat (Ptr tagx_row) (Ptr tagx_row) 0 \<noteq> Some NULL"
    using unknown[THEN conjunct2, THEN conjunct2, THEN conjunct2, THEN conjunct2] g by blast
  have dt: "dtype grid_23 = tag_d" "dtype int_row_12 = tag_i" by (simp_all add: grid_23_def int_row_12_def)
  have st: "stored [1, 2] (ndarray_set_point_d grid_23 [1, 2] dbl_1) (to_cells 8 (Some dbl_1))"
    using operations_dispatch_on_the_tag[OF wf_grid_23 wf_grid_23 refl, of "[1, 2]" dbl_1, THEN conjunct1]
      in_bounds_grid_23 dt(1) by blast
  have si: "stored [0, 1] (ndarray_set_point_u64 int_row_12 [0, 1] 7) (to_cells 8 (Some (7 :: u64)))"
    using operations_dispatch_on_the_tag[OF wf_int_row_12 wf_int_row_12 refl, of "[0, 1]" 7, THEN conjunct1]
      in_bounds_int_row_12 dt(2) by blast
  show "(\<exists>r. ndarray_add fp NULL row_12 row_34 = Some (Ptr r)
               \<and> get_d (data r) 0 = Some (Some (d_add fp dbl_1 dbl_3))
               \<and> get_d (data r) 1 = Some (Some (d_add fp dbl_2 dbl_4)))
      \<and> (\<exists>r. ndarray_subtract fp NULL flt_row_12 flt_row_12 = Some (Ptr r)
               \<and> get_f (data r) 0 = Some (Some (f_sub fp flt_1 flt_1))
               \<and> get_f (data r) 1 = Some (Some (f_sub fp flt_2 flt_2)))
      \<and> (\<exists>r. ndarray_compare fp NULL row_12 row_34 op_lt = Some (Ptr r)
               \<and> get_f (data r) 0 = Some (Some (truth (d_lt fp dbl_1 dbl_3)))
               \<and> get_f (data r) 1 = Some (Some (truth (d_lt fp dbl_2 dbl_4))))
      \<and> (\<exists>r. ndarray_dot fp NULL row_12 col_34 = Some (Ptr r)
               \<and> get_d (data r) 0
                   = Some (Some (d_add fp (d_add fp 0 (d_mul fp dbl_1 dbl_3)) (d_mul fp dbl_2 dbl_4))))
      \<and> (\<exists>r. ndarray_broadcast_add fp NULL row_12 cell_1 = Some (Ptr r)
               \<and> get_d (data r) 0 = Some (Some (d_add fp dbl_1 dbl_1))
               \<and> get_d (data r) 1 = Some (Some (d_add fp dbl_2 0)))
      \<and> ndarray_add fp NULL tagx_row tagx_row = Some (Ptr (unwritten tagx_row))
      \<and> ndarray_compare fp NULL tagx_row tagx_row op_gt \<noteq> Some NULL
      \<and> ndarray_broadcast_add fp NULL tagx_row tagx_row \<noteq> Some NULL
      \<and> ndarray_concat (Ptr tagx_row) (Ptr tagx_row) 0 \<noteq> Some NULL
      \<and> stored [1, 2] (ndarray_set_point_d grid_23 [1, 2] dbl_1) (to_cells 8 (Some dbl_1))
      \<and> stored [0, 1] (ndarray_set_point_u64 int_row_12 [0, 1] 7) (to_cells 8 (Some (7 :: u64)))"
    using r1 add r5 sub r2 cmp r3 dot r4 bc x1 x2 x3 x4 st si by blast
qed

end
